theory Spec2Isabelle
  imports Complex_Main "HOL-Library.Multiset" "HOL-Library.Sublist"
begin

section \<open>The task loop of babyagi.py\<close>

text \<open>
  A shallow embedding of \<^verbatim>\<open>src/babyagi.py\<close>: the four agents, the embedding wrapper and
  the main loop. The program's globals (\<^verbatim>\<open>task_list\<close>, \<^verbatim>\<open>task_id_counter\<close>) and the
  Pinecone index are the fields of an explicit state; every exception is a value; the
  OpenAI and Pinecone services are functions of the run's history, about which nothing
  is assumed.
\<close>

subsection \<open>Python strings\<close>

text \<open>
  A Python \<^verbatim>\<open>str\<close> is a list of characters. The text is taken to be ASCII: the
  characters for which \<^verbatim>\<open>str.isspace\<close> holds are then the codes 9 to 13, 28 to 31 and 32.
\<close>

definition isspace :: "char \<Rightarrow> bool" where
  "isspace c = (of_char c \<in> {9, 10, 11, 12, 13, 28, 29, 30, 31, 32 :: nat})"

text \<open>\<^verbatim>\<open>s.strip()\<close>: leading and trailing whitespace removed.\<close>

definition strip :: "string \<Rightarrow> string" where
  "strip s = rev (dropWhile isspace (rev (dropWhile isspace s)))"

text \<open>
  \<^verbatim>\<open>s.split(sep)\<close> for a one-character separator: the text is cut at every occurrence,
  so the empty string gives one empty part and \<open>k\<close> occurrences give \<open>k + 1\<close> parts.
\<close>

function split_on :: "char \<Rightarrow> string \<Rightarrow> string list" where
  "split_on sep s =
     (case dropWhile (\<lambda>c. c \<noteq> sep) s of
        [] \<Rightarrow> [s]
      | _ # rest \<Rightarrow> takeWhile (\<lambda>c. c \<noteq> sep) s # split_on sep rest)"
  by pat_completeness auto
termination
proof (relation "measure (\<lambda>(sep, s). length s)")
  show "wf (measure (\<lambda>(sep, s). length s))" by simp
next
  fix sep :: char and s :: string and x rest
  assume "dropWhile (\<lambda>c. c \<noteq> sep) s = x # rest"
  then have "length (dropWhile (\<lambda>c. c \<noteq> sep) s) = Suc (length rest)" by simp
  moreover have "length (dropWhile (\<lambda>c. c \<noteq> sep) s) \<le> length s"
    by (rule length_dropWhile_le)
  ultimately show "((sep, rest), (sep, s)) \<in> measure (\<lambda>(sep, s). length s)" by simp
qed

declare split_on.simps [simp del]

text \<open>\<^verbatim>\<open>s.split(sep, 1)\<close>: cut at the first occurrence only.\<close>

definition split1 :: "char \<Rightarrow> string \<Rightarrow> string list" where
  "split1 sep s =
     (case dropWhile (\<lambda>c. c \<noteq> sep) s of
        [] \<Rightarrow> [s]
      | _ # rest \<Rightarrow> [takeWhile (\<lambda>c. c \<noteq> sep) s, rest])"

text \<open>\<^verbatim>\<open>s.replace("\n", " ")\<close>: every line feed becomes a space.\<close>

definition replace_newlines :: "string \<Rightarrow> string" where
  "replace_newlines s = map (\<lambda>c. if c = CHR 0x0A then CHR '' '' else c) s"

subsection \<open>Python integers and their text\<close>

text \<open>\<^verbatim>\<open>str(n)\<close> of an integer: decimal digits, with a minus sign below zero.\<close>

definition digit_char :: "nat \<Rightarrow> char" where
  "digit_char d = ''0123456789'' ! (d mod 10)"

function str_nat :: "nat \<Rightarrow> string" where
  "str_nat n = (if n < 10 then [digit_char n] else str_nat (n div 10) @ [digit_char (n mod 10)])"
  by pat_completeness auto
termination
  by (relation "measure id") auto

declare str_nat.simps [simp del]

definition str_int :: "int \<Rightarrow> string" where
  "str_int i = (if i < 0 then CHR ''-'' # str_nat (nat (- i)) else str_nat (nat i))"

text \<open>
  \<^verbatim>\<open>int(s)\<close> on a string, base ten. The interpreter skips the whitespace of the C locale
  (codes 9 to 13 and 32) on both sides, reads one optional sign, then decimal digits in
  which single underscores may stand between two digits; anything else is a
  \<^verbatim>\<open>ValueError\<close> (here \<open>None\<close>), and so is a numeral of more than
  \<^verbatim>\<open>sys.get_int_max_str_digits()\<close> digits (4300 unless reconfigured).
\<close>

definition c_isspace :: "char \<Rightarrow> bool" where
  "c_isspace c = (of_char c \<in> {9, 10, 11, 12, 13, 32 :: nat})"

definition is_digit :: "char \<Rightarrow> bool" where
  "is_digit c = (48 \<le> (of_char c :: nat) \<and> (of_char c :: nat) \<le> 57)"

definition digit_val :: "char \<Rightarrow> int" where
  "digit_val c = int (of_char c) - 48"

definition int_max_str_digits :: nat where
  "int_max_str_digits = 4300"

text \<open>
  The digits of a numeral, underscores removed; \<open>prev\<close> tells whether the character
  before was a digit, which is where an underscore or the end may stand.
\<close>

fun numeral_digits :: "bool \<Rightarrow> string \<Rightarrow> string option" where
  "numeral_digits prev [] = (if prev then Some [] else None)"
| "numeral_digits prev (c # cs) =
     (if is_digit c then map_option (\<lambda>ds. c # ds) (numeral_digits True cs)
      else if c = CHR ''_'' \<and> prev then numeral_digits False cs
      else None)"

definition digits_value :: "string \<Rightarrow> int" where
  "digits_value ds = foldl (\<lambda>acc c. 10 * acc + digit_val c) 0 ds"

definition unsigned_of_string :: "string \<Rightarrow> int option" where
  "unsigned_of_string s =
     (case numeral_digits False s of
        None \<Rightarrow> None
      | Some ds \<Rightarrow> if length ds > int_max_str_digits then None else Some (digits_value ds))"

definition int_of_string :: "string \<Rightarrow> int option" where
  "int_of_string s =
     (case rev (dropWhile c_isspace (rev (dropWhile c_isspace s))) of
        [] \<Rightarrow> None
      | c # cs \<Rightarrow>
          if c = CHR ''-'' then map_option uminus (unsigned_of_string cs)
          else if c = CHR ''+'' then unsigned_of_string cs
          else unsigned_of_string (c # cs))"

subsection \<open>Data model\<close>

text \<open>
  A task is a dictionary. The seed task and the tasks numbered by the main loop carry an
  integer \<^verbatim>\<open>task_id\<close>; the tasks rebuilt by \<^verbatim>\<open>prioritization_agent\<close> carry the string the
  model wrote. \<^verbatim>\<open>task_creation_agent\<close> returns dictionaries with a \<^verbatim>\<open>task_name\<close> only.
\<close>

datatype task_id = IntId int | StrId string

record candidate =
  task_name :: string

record task = candidate +
  task_id :: task_id

text \<open>\<^verbatim>\<open>int(x)\<close> and \<^verbatim>\<open>str(x)\<close> (as in an f-string) on a task id.\<close>

fun py_int :: "task_id \<Rightarrow> int option" where
  "py_int (IntId n) = Some n"
| "py_int (StrId s) = int_of_string s"

fun py_str :: "task_id \<Rightarrow> string" where
  "py_str (IntId n) = str_int n"
| "py_str (StrId s) = s"

text \<open>
  An embedding is a list of numbers, the metadata of a record a dictionary from strings
  to strings (kept as an association list), a match of a query a score with metadata.
  Scores are real numbers: the store's similarity scores are taken to be comparable.
\<close>

type_synonym vector = "real list"

type_synonym metadata = "(string \<times> string) list"

record match =
  score :: real
  metadata :: metadata

type_synonym store = "string \<rightharpoonup> vector \<times> metadata"

text \<open>
  A prompt is kept as the values its f-string is built from: the text sent to the model
  is a function of exactly these.
\<close>

datatype prompt =
  Execution_prompt string "string list" string
| Creation_prompt string string string "string list"
| Prioritization_prompt "string list" string int

text \<open>
  The history of a run: the queue operations, the calls to the services with their
  arguments (for the upsert, also whether it went through) and the sleeps, in order.
\<close>

datatype event =
  Popleft task
| Add_task task
| Embedding_create string
| Index_query vector int
| Completion_create bool prompt real int
| Index_upsert string vector metadata bool
| Sleep int

datatype error = ValueError | KeyError | ProviderError

text \<open>
  The configuration and the services. A service answers a call from the history so far
  and the call's arguments; \<open>None\<close> (for the upsert, \<open>False\<close>) is a call that raises.
\<close>

record env =
  OBJECTIVE :: string
  INITIAL_TASK :: string
  USE_GPT4 :: bool
  embedding_create :: "event list \<Rightarrow> string \<Rightarrow> vector option"
  completion_create :: "event list \<Rightarrow> prompt \<Rightarrow> real \<Rightarrow> int \<Rightarrow> string option"
  chat_completion_create :: "event list \<Rightarrow> prompt \<Rightarrow> real \<Rightarrow> int \<Rightarrow> string option"
  index_query :: "event list \<Rightarrow> store \<Rightarrow> vector \<Rightarrow> int \<Rightarrow> match list option"
  index_upsert :: "event list \<Rightarrow> string \<Rightarrow> vector \<Rightarrow> metadata \<Rightarrow> bool"

record state =
  task_list :: "task list"
  task_id_counter :: int
  index :: store
  history :: "event list"

text \<open>A call ends in an exception, with the state it leaves, or returns.\<close>

type_synonym 'a outcome = "error \<times> state + 'a \<times> state"

definition record_event :: "event \<Rightarrow> state \<Rightarrow> state" where
  "record_event e s = s\<lparr>history := history s @ [e]\<rparr>"

subsection \<open>The wrappers of the services\<close>

definition add_task :: "task \<Rightarrow> state \<Rightarrow> state" where
  "add_task t s = record_event (Add_task t) (s\<lparr>task_list := task_list s @ [t]\<rparr>)"

definition get_ada_embedding :: "env \<Rightarrow> string \<Rightarrow> state \<Rightarrow> vector outcome" where
  "get_ada_embedding env text s =
     (let text = replace_newlines text;
          s' = record_event (Embedding_create text) s
      in case embedding_create env (history s) text of
           None \<Rightarrow> Inl (ProviderError, s')
         | Some embedding \<Rightarrow> Inr (embedding, s'))"

definition openai_call :: "env \<Rightarrow> prompt \<Rightarrow> bool \<Rightarrow> real \<Rightarrow> int \<Rightarrow> state \<Rightarrow> string outcome" where
  "openai_call env prompt use_gpt4 temperature max_tokens s =
     (let s' = record_event (Completion_create use_gpt4 prompt temperature max_tokens) s
      in if \<not> use_gpt4 then
           (case completion_create env (history s) prompt temperature max_tokens of
              None \<Rightarrow> Inl (ProviderError, s')
            | Some text \<Rightarrow> Inr (strip text, s'))
         else
           (case chat_completion_create env (history s) prompt temperature max_tokens of
              None \<Rightarrow> Inl (ProviderError, s')
            | Some content \<Rightarrow> Inr (strip content, s')))"

text \<open>
  \<^verbatim>\<open>index.upsert\<close> belongs to the store, which is not part of the repository.

  Modelled from the spec: the Memory Store's \<^verbatim>\<open>upsert(index, id, vector, metadata)\<close>
  creates the record with this id or overwrites the one that has it.
\<close>

definition upsert :: "env \<Rightarrow> string \<Rightarrow> vector \<Rightarrow> metadata \<Rightarrow> state \<Rightarrow> error \<times> state + state" where
  "upsert env result_id vec meta s =
     (let ok = index_upsert env (history s) result_id vec meta;
          s' = record_event (Index_upsert result_id vec meta ok) s
      in if ok then Inr (s'\<lparr>index := (index s)(result_id \<mapsto> (vec, meta))\<rparr>)
         else Inl (ProviderError, s'))"

subsection \<open>The agents\<close>

definition task_creation_agent ::
  "env \<Rightarrow> string \<Rightarrow> string \<Rightarrow> string \<Rightarrow> string list \<Rightarrow> state \<Rightarrow> candidate list outcome" where
  "task_creation_agent env objective result task_description tasks s =
     (case openai_call env (Creation_prompt objective result task_description tasks)
             (USE_GPT4 env) 0.5 100 s of
        Inl e \<Rightarrow> Inl e
      | Inr (response, s') \<Rightarrow>
          let new_tasks = split_on CHR 0x0A response
          in Inr (map (\<lambda>task_name. \<lparr>task_name = task_name\<rparr>) new_tasks, s'))"

text \<open>The body of the loop over the lines of the prioritization response.\<close>

definition append_task_string :: "state \<Rightarrow> string \<Rightarrow> state" where
  "append_task_string s task_string =
     (let task_parts = split1 CHR ''.'' (strip task_string)
      in if length task_parts = 2 then
           s\<lparr>task_list := task_list s @
               [\<lparr>task_name = strip (task_parts ! 1), task_id = StrId (strip (task_parts ! 0))\<rparr>]\<rparr>
         else s)"

definition prioritization_agent :: "env \<Rightarrow> int \<Rightarrow> state \<Rightarrow> error \<times> state + state" where
  "prioritization_agent env this_task_id s =
     (let task_names = map task_name (task_list s);
          next_task_id = this_task_id + 1
      in case openai_call env (Prioritization_prompt task_names (OBJECTIVE env) next_task_id)
                (USE_GPT4 env) 0.5 100 s of
           Inl e \<Rightarrow> Inl e
         | Inr (response, s') \<Rightarrow>
             let new_tasks = split_on CHR 0x0A response
             in Inr (foldl append_task_string (s'\<lparr>task_list := []\<rparr>) new_tasks))"

text \<open>
  \<^verbatim>\<open>sorted(xs, key=k, reverse=True)\<close>: a stable sort, elements of equal key keeping
  their order.
\<close>

definition sorted_reverse :: "('a \<Rightarrow> 'k::linorder) \<Rightarrow> 'a list \<Rightarrow> 'a list" where
  "sorted_reverse k xs = rev (sort_key k (rev xs))"

definition context_agent :: "env \<Rightarrow> string \<Rightarrow> int \<Rightarrow> state \<Rightarrow> string list outcome" where
  "context_agent env query n s =
     (case get_ada_embedding env query s of
        Inl e \<Rightarrow> Inl e
      | Inr (query_embedding, s1) \<Rightarrow>
          (let s2 = record_event (Index_query query_embedding n) s1
           in (case index_query env (history s1) (index s1) query_embedding n of
                 None \<Rightarrow> Inl (ProviderError, s2)
               | Some matches \<Rightarrow>
                   (let sorted_results = sorted_reverse score matches
                    in (case those (map (\<lambda>item. map_of (metadata item) ''task'') sorted_results) of
                          None \<Rightarrow> Inl (KeyError, s2)
                        | Some names \<Rightarrow> Inr (names, s2))))))"

definition execution_agent :: "env \<Rightarrow> string \<Rightarrow> string \<Rightarrow> state \<Rightarrow> string outcome" where
  "execution_agent env objective task s =
     (case context_agent env objective 5 s of
        Inl e \<Rightarrow> Inl e
      | Inr (context, s') \<Rightarrow>
          openai_call env (Execution_prompt objective context task) (USE_GPT4 env) 0.7 2000 s')"

subsection \<open>The main loop\<close>

text \<open>The state before the loop: the seed task, with id 1, is in the queue.\<close>

definition initial_state :: "env \<Rightarrow> store \<Rightarrow> state" where
  "initial_state env idx =
     add_task \<lparr>task_name = INITIAL_TASK env, task_id = IntId 1\<rparr>
       \<lparr>task_list = [], task_id_counter = 1, index = idx, history = []\<rparr>"

definition number_task :: "state \<Rightarrow> candidate \<Rightarrow> state" where
  "number_task s new_task =
     (let s' = s\<lparr>task_id_counter := task_id_counter s + 1\<rparr>
      in add_task \<lparr>task_name = task_name new_task, task_id = IntId (task_id_counter s')\<rparr> s')"

definition sleep :: "int \<Rightarrow> state \<Rightarrow> state" where
  "sleep secs s = record_event (Sleep secs) s"

text \<open>
  Step 2 of the loop body: the result is embedded and stored under the id made from the
  task's id, with the task's name and the result as metadata.
\<close>

definition store_result :: "env \<Rightarrow> task \<Rightarrow> string \<Rightarrow> state \<Rightarrow> error \<times> state + state" where
  "store_result env task result s =
     (let result_id = ''result_'' @ py_str (task_id task)
      in (case get_ada_embedding env result s of
            Inl e \<Rightarrow> Inl e
          | Inr (vec, s') \<Rightarrow>
              upsert env result_id vec [(''task'', task_name task), (''result'', result)] s'))"

text \<open>
  Step 3 of the loop body: new tasks are created from the result, each is given the next
  value of the counter and appended, and the queue is reprioritized.
\<close>

definition create_and_reprioritize ::
  "env \<Rightarrow> task \<Rightarrow> string \<Rightarrow> int \<Rightarrow> state \<Rightarrow> error \<times> state + state" where
  "create_and_reprioritize env task result this_task_id s =
     (case task_creation_agent env (OBJECTIVE env) result (task_name task)
             (map task_name (task_list s)) s of
        Inl e \<Rightarrow> Inl e
      | Inr (new_tasks, s') \<Rightarrow>
          prioritization_agent env this_task_id (foldl number_task s' new_tasks))"

text \<open>
  One pass through the body of \<^verbatim>\<open>while True\<close>: with a task in the queue, step 1 pulls
  the first task, the execution agent computes its result, the id is converted to an
  integer, then steps 2 and 3 run; the pass ends with the sleep.
\<close>

definition iteration :: "env \<Rightarrow> state \<Rightarrow> error \<times> state + state" where
  "iteration env s =
     (case task_list s of
        [] \<Rightarrow> Inr (sleep 1 s)
      | task # rest \<Rightarrow>
          (let s1 = record_event (Popleft task) (s\<lparr>task_list := rest\<rparr>)
           in (case execution_agent env (OBJECTIVE env) (task_name task) s1 of
                 Inl e \<Rightarrow> Inl e
               | Inr (result, s2) \<Rightarrow>
                   (case py_int (task_id task) of
                      None \<Rightarrow> Inl (ValueError, s2)
                    | Some this_task_id \<Rightarrow>
                        (case store_result env task result s2 of
                           Inl e \<Rightarrow> Inl e
                         | Inr s3 \<Rightarrow>
                             (case create_and_reprioritize env task result this_task_id s3 of
                                Inl e \<Rightarrow> Inl e
                              | Inr s4 \<Rightarrow> Inr (sleep 1 s4)))))))"

text \<open>
  The loop has no exit: it ends only when an iteration raises, with that exception and
  the state it leaves; \<open>None\<close> is a loop that runs forever.
\<close>

partial_function (option) main_loop :: "env \<Rightarrow> state \<Rightarrow> (error \<times> state) option" where
  "main_loop env s =
     (case iteration env s of
        Inl e \<Rightarrow> Some e
      | Inr s' \<Rightarrow> main_loop env s')"

text \<open>The first \<open>n\<close> iterations of the loop.\<close>

fun iterations :: "nat \<Rightarrow> env \<Rightarrow> state \<Rightarrow> error \<times> state + state" where
  "iterations 0 env s = Inr s"
| "iterations (Suc n) env s =
     (case iteration env s of
        Inl e \<Rightarrow> Inl e
      | Inr s' \<Rightarrow> iterations n env s')"

text \<open>The state an iteration or a run leaves, whether it raised or not.\<close>

fun final_state :: "error \<times> state + state \<Rightarrow> state" where
  "final_state (Inl (e, s)) = s"
| "final_state (Inr s) = s"

text \<open>What a call returned, if it did.\<close>

fun returned :: "'a outcome \<Rightarrow> 'a option" where
  "returned (Inl e) = None"
| "returned (Inr (x, s)) = Some x"

text \<open>\<^verbatim>\<open>sep.join(parts)\<close>, used to say what a split gives.\<close>

fun join :: "char \<Rightarrow> string list \<Rightarrow> string" where
  "join sep [] = []"
| "join sep [x] = x"
| "join sep (x # y # ys) = x @ sep # join sep (y # ys)"

subsection \<open>An example run\<close>

text \<open>
  The scenario of the specification: the objective is to write a poem, the seed task to
  draft the first stanza. The model answers the execution prompt with a line of verse,
  the creation prompt with two tasks around an empty line, and the prioritization prompt
  with a line numbered \<open>#\<close>, a line without a period and a well-formed line.
\<close>

definition poem_env :: env where
  "poem_env =
     \<lparr>OBJECTIVE = ''Write a poem'', INITIAL_TASK = ''Draft first stanza'', USE_GPT4 = False,
      embedding_create = (\<lambda>h text. Some [0]),
      completion_create = (\<lambda>h p t m.
         case p of
           Execution_prompt _ _ _ \<Rightarrow> Some '' Roses are red...''
         | Creation_prompt _ _ _ _ \<Rightarrow> Some ''Write the second stanza\<newline>\<newline>Pick a title''
         | Prioritization_prompt _ _ _ \<Rightarrow>
             Some ''#. Write the second stanza\<newline>no period here\<newline> 3. Clean the kitchen ''),
      chat_completion_create = (\<lambda>h p t m. None),
      index_query = (\<lambda>h st v n. Some []),
      index_upsert = (\<lambda>h i v m. True)\<rparr>"

definition poem_start :: state where
  "poem_start = initial_state poem_env Map.empty"

subsection \<open>What a line of the prioritization response yields\<close>

text \<open>
  The task read from a line with a period: the line is stripped, the text before its
  first period, stripped, is the id and the text after it, stripped, is the name.
\<close>

definition task_of_line :: "string \<Rightarrow> task" where
  "task_of_line l =
     (let t = strip l
      in \<lparr>task_name = strip (tl (dropWhile (\<lambda>c. c \<noteq> CHR ''.'') t)),
          task_id = StrId (strip (takeWhile (\<lambda>c. c \<noteq> CHR ''.'') t))\<rparr>)"

text \<open>
  A store that answers every query with three matches, not in the order of their scores.
\<close>

definition three_matches :: "match list" where
  "three_matches =
     [\<lparr>score = 0.2, metadata = [(''task'', ''Pick a title''), (''result'', ''Ode'')]\<rparr>,
      \<lparr>score = 0.9, metadata = [(''task'', ''Draft first stanza''), (''result'', ''Roses'')]\<rparr>,
      \<lparr>score = 0.5, metadata = [(''task'', ''Find a rhyme''), (''result'', ''blue'')]\<rparr>]"

definition recall_env :: env where
  "recall_env = poem_env\<lparr>index_query := (\<lambda>h st v n. Some three_matches)\<rparr>"

subsection \<open>Notions for the properties of the loop\<close>

text \<open>The tasks that the loop over \<^verbatim>\<open>new_tasks\<close> appends when the counter stands at \<open>c\<close>.\<close>

fun numbered :: "int \<Rightarrow> candidate list \<Rightarrow> task list" where
  "numbered c [] = []"
| "numbered c (x # xs) = \<lparr>task_name = task_name x, task_id = IntId (c + 1)\<rparr> # numbered (c + 1) xs"

text \<open>The answer of the model that the flag selects.\<close>

definition model_reply :: "env \<Rightarrow> bool \<Rightarrow> event list \<Rightarrow> prompt \<Rightarrow> real \<Rightarrow> int \<Rightarrow> string option" where
  "model_reply env use_gpt4 h p t m =
     (if \<not> use_gpt4 then completion_create env h p t m else chat_completion_create env h p t m)"

text \<open>The kind of an event, and the events that are an execution call or an upsert.\<close>

datatype kind =
  Pops | Adds | Embeds | Queries | Executes | Creates | Prioritizes | Upserts bool | Sleeps

fun kind_of :: "event \<Rightarrow> kind" where
  "kind_of (Popleft t) = Pops"
| "kind_of (Add_task t) = Adds"
| "kind_of (Embedding_create x) = Embeds"
| "kind_of (Index_query v n) = Queries"
| "kind_of (Completion_create g (Execution_prompt a b c) t m) = Executes"
| "kind_of (Completion_create g (Creation_prompt a b c d) t m) = Creates"
| "kind_of (Completion_create g (Prioritization_prompt a b c) t m) = Prioritizes"
| "kind_of (Index_upsert result_id vec meta ok) = Upserts ok"
| "kind_of (Sleep secs) = Sleeps"

fun is_execution :: "event \<Rightarrow> bool" where
  "is_execution (Completion_create g (Execution_prompt a b c) t m) = True"
| "is_execution _ = False"

fun is_upsert :: "event \<Rightarrow> bool" where
  "is_upsert (Index_upsert result_id vec meta ok) = True"
| "is_upsert _ = False"

text \<open>The integer ids that \<^verbatim>\<open>add_task\<close> was called with, in the order of the calls.\<close>

fun assigned_id :: "event \<Rightarrow> int list" where
  "assigned_id (Add_task t) = (case task_id t of IntId n \<Rightarrow> [n] | StrId x \<Rightarrow> [])"
| "assigned_id _ = []"

definition assigned_ids :: "event list \<Rightarrow> int list" where
  "assigned_ids evs = concat (map assigned_id evs)"

text \<open>The events an iteration adds to the history of the state it starts from.\<close>

definition events_of :: "env \<Rightarrow> state \<Rightarrow> event list" where
  "events_of env s = drop (length (history s)) (history (final_state (iteration env s)))"

text \<open>A provider that is down: every embedding call raises.\<close>

definition down_env :: env where
  "down_env = poem_env\<lparr>embedding_create := (\<lambda>h text. None)\<rparr>"

definition idle_state :: state where
  "idle_state = \<lparr>task_list = [], task_id_counter = 1, index = Map.empty, history = []\<rparr>"

text \<open>The state of the example after its first iteration.\<close>

definition poem_second :: state where
  "poem_second = final_state (iteration poem_env poem_start)"

section \<open>Properties\<close>

subsection \<open>Splitting text\<close>

lemma split_on_Nil: "split_on sep [] = [[]]"
  by (simp add: split_on.simps)

lemma split_on_not_Nil: "split_on sep s \<noteq> []"
  by (subst split_on.simps) (simp split: list.split)

lemma split_on_Cons:
  "split_on sep (c # cs) =
     (if c = sep then [] # split_on sep cs
      else (c # hd (split_on sep cs)) # tl (split_on sep cs))"
proof (cases "c = sep")
  case True
  then show ?thesis by (subst split_on.simps) simp
next
  case False
  show ?thesis
  proof (cases "dropWhile (\<lambda>x. x \<noteq> sep) cs")
    case Nil
    have a: "split_on sep cs = [cs]"
      by (subst split_on.simps) (simp only: Nil list.case)
    have "dropWhile (\<lambda>x. x \<noteq> sep) (c # cs) = []"
      using False Nil by simp
    then have "split_on sep (c # cs) = [c # cs]"
      by (subst split_on.simps) (simp only: list.case)
    with a False show ?thesis by simp
  next
    case (Cons y rest)
    have a: "split_on sep cs = takeWhile (\<lambda>x. x \<noteq> sep) cs # split_on sep rest"
      by (subst split_on.simps) (simp only: Cons list.case)
    have "dropWhile (\<lambda>x. x \<noteq> sep) (c # cs) = y # rest"
      using False Cons by simp
    then have "split_on sep (c # cs) = takeWhile (\<lambda>x. x \<noteq> sep) (c # cs) # split_on sep rest"
      by (subst split_on.simps) (simp only: list.case)
    with a False show ?thesis by simp
  qed
qed

lemma length_split_on: "length (split_on sep s) = Suc (length (filter (\<lambda>c. c = sep) s))"
proof (induction s)
  case Nil
  show ?case by (simp add: split_on_Nil)
next
  case (Cons c cs)
  have "length (tl (split_on sep cs)) = length (filter (\<lambda>c. c = sep) cs)"
    using Cons.IH by simp
  with Cons.IH show ?case by (simp add: split_on_Cons)
qed

lemma join_split_on: "join sep (split_on sep s) = s"
proof (induction s)
  case Nil
  show ?case by (simp add: split_on_Nil)
next
  case (Cons c cs)
  obtain l ls where sp: "split_on sep cs = l # ls"
    using split_on_not_Nil [of sep cs] by (cases "split_on sep cs") auto
  with Cons.IH show ?case
    by (cases ls) (auto simp: split_on_Cons)
qed

lemma sep_notin_split_on: "l \<in> set (split_on sep s) \<Longrightarrow> sep \<notin> set l"
proof (induction s arbitrary: l)
  case Nil
  then show ?case by (simp add: split_on_Nil)
next
  case (Cons c cs)
  obtain l' ls where sp: "split_on sep cs = l' # ls"
    using split_on_not_Nil [of sep cs] by (cases "split_on sep cs") auto
  with Cons show ?case
    by (auto simp: split_on_Cons split: if_splits)
qed


subsection \<open>The embedding wrapper\<close>

lemma replace_newlines_join_split:
  "replace_newlines text = join CHR '' '' (split_on CHR 0x0A text)"
proof (induction "text")
  case Nil
  show ?case by (simp add: replace_newlines_def split_on_Nil)
next
  case (Cons c cs)
  obtain l ls where sp: "split_on CHR 0x0A cs = l # ls"
    using split_on_not_Nil [of "CHR 0x0A" cs] by (cases "split_on CHR 0x0A cs") auto
  with Cons.IH show ?case
    by (cases ls) (auto simp: split_on_Cons replace_newlines_def)
qed

text \<open>
  Claim C10. Whatever the text, \<^verbatim>\<open>get_ada_embedding\<close> calls the embedding service with
  the text in which every line feed has been replaced by a space (the lines of the text
  joined by spaces), so the string that is embedded contains no line feed.
\<close>

theorem get_ada_embedding_no_newline:
  "get_ada_embedding env text s =
     (case embedding_create env (history s) (replace_newlines text) of
        None \<Rightarrow> Inl (ProviderError, record_event (Embedding_create (replace_newlines text)) s)
      | Some v \<Rightarrow> Inr (v, record_event (Embedding_create (replace_newlines text)) s))
   \<and> CHR 0x0A \<notin> set (replace_newlines text)
   \<and> replace_newlines text = join CHR '' '' (split_on CHR 0x0A text)"
proof -
  have "CHR 0x0A \<notin> set (replace_newlines text)"
    by (auto simp: replace_newlines_def)
  then show ?thesis
    by (simp add: get_ada_embedding_def Let_def replace_newlines_join_split [symmetric])
qed

theorem get_ada_embedding_no_newline_witness:
  "get_ada_embedding poem_env ''Roses are red\<newline>Violets are blue'' poem_start =
     Inr ([0], record_event (Embedding_create ''Roses are red Violets are blue'') poem_start)"
  using get_ada_embedding_no_newline [of poem_env "''Roses are red\<newline>Violets are blue''" poem_start]
  by (simp add: poem_env_def replace_newlines_def)

subsection \<open>The task creation agent\<close>

lemma poem_creation_response:
  "openai_call poem_env (Creation_prompt ''Write a poem'' ''Roses are red...'' ''Draft first stanza'' [])
     (USE_GPT4 poem_env) 0.5 100 poem_start =
   Inr (''Write the second stanza\<newline>\<newline>Pick a title'',
        record_event (Completion_create False
          (Creation_prompt ''Write a poem'' ''Roses are red...'' ''Draft first stanza'' []) 0.5 100) poem_start)"
  by (simp add: openai_call_def poem_env_def strip_def isspace_def)

lemma split_poem_creation:
  "split_on CHR 0x0A ''Write the second stanza\<newline>\<newline>Pick a title'' =
     [''Write the second stanza'', '''', ''Pick a title'']"
  by code_simp

text \<open>
  Claim C2 says that only the non-empty lines of the response become candidate tasks.
  The agent does not filter: in the example the response has an empty line between two
  tasks, and the agent returns three candidates, the second with an empty name.
\<close>

theorem task_creation_agent_keeps_empty_line:
  "map_option (map task_name)
     (returned (task_creation_agent poem_env ''Write a poem'' ''Roses are red...''
        ''Draft first stanza'' [] poem_start)) =
     Some [''Write the second stanza'', '''', ''Pick a title'']"
  using poem_creation_response
  by (simp add: task_creation_agent_def split_poem_creation)

text \<open>
  Claim C2, amended. When the model call returns, the agent returns exactly one candidate
  task per line of the response, in order, empty lines included: the names are the parts
  of the response between line feeds, there is one more of them than there are line
  feeds, and joined by line feeds they give the response back.
\<close>

theorem task_creation_agent_one_task_per_line:
  assumes "openai_call env (Creation_prompt objective result task_description tasks)
             (USE_GPT4 env) 0.5 100 s = Inr (response, s')"
  shows "\<exists>new_tasks.
           task_creation_agent env objective result task_description tasks s = Inr (new_tasks, s')
         \<and> map task_name new_tasks = split_on CHR 0x0A response
         \<and> length new_tasks = Suc (length (filter (\<lambda>c. c = CHR 0x0A) response))
         \<and> join CHR 0x0A (map task_name new_tasks) = response"
  using assms
  by (simp add: task_creation_agent_def comp_def length_split_on [symmetric] join_split_on)

theorem task_creation_agent_one_task_per_line_witness:
  "\<exists>new_tasks s'.
     task_creation_agent poem_env ''Write a poem'' ''Roses are red...'' ''Draft first stanza'' []
       poem_start = Inr (new_tasks, s')
     \<and> map task_name new_tasks = [''Write the second stanza'', '''', ''Pick a title'']
     \<and> length new_tasks = 3"
  using task_creation_agent_one_task_per_line [OF poem_creation_response]
  by (auto simp: split_poem_creation)

subsection \<open>The prioritization agent\<close>

lemma mem_dropWhile: "\<not> P c \<Longrightarrow> c \<in> set (dropWhile P xs) \<longleftrightarrow> c \<in> set xs"
  by (induction xs) auto

lemma mem_strip: "\<not> isspace c \<Longrightarrow> c \<in> set (strip s) \<longleftrightarrow> c \<in> set s"
  by (simp add: strip_def mem_dropWhile)

lemma not_isspace_period: "\<not> isspace CHR ''.''"
  by (simp add: isspace_def)

lemma dropWhile_neq_Nil: "dropWhile (\<lambda>c. c \<noteq> sep) t = [] \<longleftrightarrow> sep \<notin> set t"
  by (induction t) auto

lemma length_split1: "length (split1 sep t) = 2 \<longleftrightarrow> sep \<in> set t"
proof (cases "dropWhile (\<lambda>c. c \<noteq> sep) t")
  case Nil
  then have "sep \<notin> set t" using dropWhile_neq_Nil [of sep t] by blast
  moreover have "split1 sep t = [t]"
    unfolding split1_def by (simp only: Nil list.case)
  ultimately show ?thesis by simp
next
  case (Cons x rest)
  then have "dropWhile (\<lambda>c. c \<noteq> sep) t \<noteq> []" by simp
  then have "sep \<in> set t" using dropWhile_neq_Nil [of sep t] by blast
  moreover have "length (split1 sep t) = 2"
    unfolding split1_def by (simp only: Cons list.case) simp
  ultimately show ?thesis by simp
qed

lemma split1_parts:
  "sep \<in> set t \<Longrightarrow>
     split1 sep t = [takeWhile (\<lambda>c. c \<noteq> sep) t, tl (dropWhile (\<lambda>c. c \<noteq> sep) t)]"
proof -
  assume "sep \<in> set t"
  then have "dropWhile (\<lambda>c. c \<noteq> sep) t \<noteq> []" using dropWhile_neq_Nil [of sep t] by blast
  then obtain x rest where c: "dropWhile (\<lambda>c. c \<noteq> sep) t = x # rest"
    by (cases "dropWhile (\<lambda>c. c \<noteq> sep) t") auto
  show ?thesis unfolding split1_def by (simp only: c list.case list.sel)
qed

lemma two_parts_iff_period:
  "length (split1 CHR ''.'' (strip l)) = 2 \<longleftrightarrow> CHR ''.'' \<in> set l"
  by (simp only: length_split1 mem_strip [OF not_isspace_period])

lemma append_task_string_eq:
  "append_task_string s l =
     (if CHR ''.'' \<in> set l then s\<lparr>task_list := task_list s @ [task_of_line l]\<rparr> else s)"
proof (cases "CHR ''.'' \<in> set l")
  case True
  then have m: "CHR ''.'' \<in> set (strip l)" by (simp only: mem_strip [OF not_isspace_period])
  have "length (split1 CHR ''.'' (strip l)) = 2" using True by (simp only: two_parts_iff_period)
  with True show ?thesis
    by (simp add: append_task_string_def Let_def task_of_line_def split1_parts [OF m])
next
  case False
  then have "length (split1 CHR ''.'' (strip l)) \<noteq> 2" by (simp only: two_parts_iff_period) simp
  with False show ?thesis
    by (simp add: append_task_string_def Let_def)
qed

lemma foldl_append_task_string:
  "foldl append_task_string s ls =
     s\<lparr>task_list := task_list s @ map task_of_line (filter (\<lambda>l. CHR ''.'' \<in> set l) ls)\<rparr>"
proof (induction ls arbitrary: s)
  case Nil
  show ?case by simp
next
  case (Cons l ls)
  have "foldl append_task_string s (l # ls) = foldl append_task_string (append_task_string s l) ls"
    by simp
  also have "\<dots> = (append_task_string s l)\<lparr>task_list := task_list (append_task_string s l) @
      map task_of_line (filter (\<lambda>l. CHR ''.'' \<in> set l) ls)\<rparr>"
    by (rule Cons.IH)
  also have "\<dots> = s\<lparr>task_list := task_list s @
      map task_of_line (filter (\<lambda>l. CHR ''.'' \<in> set l) (l # ls))\<rparr>"
    by (simp add: append_task_string_eq)
  finally show ?case .
qed


lemma split_poem_prioritization:
  "split_on CHR 0x0A ''#. Write the second stanza\<newline>no period here\<newline> 3. Clean the kitchen'' =
     [''#. Write the second stanza'', ''no period here'', '' 3. Clean the kitchen'']"
  by code_simp



subsection \<open>The context agent\<close>

lemma sorted_reverse_mset: "mset (sorted_reverse k xs) = mset xs"
  by (simp add: sorted_reverse_def)

lemma sorted_reverse_descending:
  "sorted_wrt (\<lambda>a b. k a \<ge> k b) (sorted_reverse k xs)"
proof -
  have "sorted (map k (sort_key k (rev xs)))" by simp
  then have "sorted_wrt (\<lambda>a b. k a \<le> k b) (sort_key k (rev xs))"
    by (simp add: sorted_map)
  then show ?thesis
    by (simp add: sorted_reverse_def sorted_wrt_rev)
qed

lemma those_map_Some:
  "\<forall>x \<in> set xs. f x \<noteq> None \<Longrightarrow> those (map f xs) = Some (map (\<lambda>x. the (f x)) xs)"
  by (induction xs) auto

lemma set_sorted_reverse: "set (sorted_reverse k xs) = set xs"
  by (simp add: sorted_reverse_def)

text \<open>
  Claim C7. For every query, every \<open>n\<close> and every list of matches the store returns
  (each hit carrying a \<^verbatim>\<open>task\<close> entry in its metadata, and the embedding call having
  returned), the context agent returns the \<^verbatim>\<open>task\<close> entries of the matches re-sorted by
  score: the sorted list has the same matches as the store's answer, in whatever order
  that came, and its scores never increase from one hit to the next.
\<close>

theorem context_agent_sorted_by_score:
  assumes "embedding_create env (history s) (replace_newlines query) = Some query_embedding"
    and "index_query env (history s @ [Embedding_create (replace_newlines query)]) (index s)
           query_embedding n = Some matches"
    and "\<forall>m \<in> set matches. map_of (metadata m) ''task'' \<noteq> None"
  shows "\<exists>sorted_results s'.
           context_agent env query n s =
             Inr (map (\<lambda>item. the (map_of (metadata item) ''task'')) sorted_results, s')
         \<and> sorted_results = sorted_reverse score matches
         \<and> mset sorted_results = mset matches
         \<and> sorted_wrt (\<lambda>a b. score a \<ge> score b) sorted_results"
proof -
  have "\<forall>m \<in> set (sorted_reverse score matches). map_of (metadata m) ''task'' \<noteq> None"
    using assms(3) by (simp add: set_sorted_reverse)
  then have "those (map (\<lambda>item. map_of (metadata item) ''task'') (sorted_reverse score matches)) =
      Some (map (\<lambda>item. the (map_of (metadata item) ''task'')) (sorted_reverse score matches))"
    by (rule those_map_Some)
  then have "context_agent env query n s =
      Inr (map (\<lambda>item. the (map_of (metadata item) ''task'')) (sorted_reverse score matches),
           record_event (Index_query query_embedding n)
             (record_event (Embedding_create (replace_newlines query)) s))"
    using assms(1,2)
    by (simp add: context_agent_def get_ada_embedding_def Let_def record_event_def)
  then show ?thesis
    using sorted_reverse_mset [of score matches] sorted_reverse_descending [of score matches]
    by blast
qed

theorem context_agent_sorted_by_score_witness:
  "returned (context_agent recall_env ''Write a poem'' 5 poem_start) =
     Some [''Draft first stanza'', ''Find a rhyme'', ''Pick a title'']"
proof -
  have a: "embedding_create recall_env (history poem_start) (replace_newlines ''Write a poem'') = Some [0]"
    by (simp add: recall_env_def poem_env_def)
  have b: "index_query recall_env (history poem_start @ [Embedding_create (replace_newlines ''Write a poem'')])
       (index poem_start) [0] 5 = Some three_matches"
    by (simp add: recall_env_def poem_env_def)
  have c: "\<forall>m \<in> set three_matches. map_of (metadata m) ''task'' \<noteq> None"
    by (simp add: three_matches_def)
  have d: "sorted_reverse score three_matches =
     [\<lparr>score = 0.9, metadata = [(''task'', ''Draft first stanza''), (''result'', ''Roses'')]\<rparr>,
      \<lparr>score = 0.5, metadata = [(''task'', ''Find a rhyme''), (''result'', ''blue'')]\<rparr>,
      \<lparr>score = 0.2, metadata = [(''task'', ''Pick a title''), (''result'', ''Ode'')]\<rparr>]"
    by (simp add: sorted_reverse_def three_matches_def)
  show ?thesis
    using context_agent_sorted_by_score [OF a b c]
    by (auto simp: d)
qed

lemma context_agent_no_matches:
  assumes "embedding_create env (history s) (replace_newlines query) = Some query_embedding"
    and "index_query env (history s @ [Embedding_create (replace_newlines query)]) (index s)
           query_embedding n = Some []"
  shows "context_agent env query n s =
           Inr ([], record_event (Index_query query_embedding n)
                      (record_event (Embedding_create (replace_newlines query)) s))"
  using assms
  by (simp add: context_agent_def get_ada_embedding_def Let_def record_event_def
      sorted_reverse_def)

text \<open>
  Claim C8. When the store has no match for the query, the context agent returns the
  empty list and does not raise, and its caller, the execution agent, goes on to the
  model call with an empty context.
\<close>

theorem context_agent_empty:
  assumes "embedding_create env (history s) (replace_newlines query) = Some query_embedding"
    and "index_query env (history s @ [Embedding_create (replace_newlines query)]) (index s)
           query_embedding n = Some []"
    and "index_query env (history s @ [Embedding_create (replace_newlines query)]) (index s)
           query_embedding 5 = Some []"
  shows "context_agent env query n s =
           Inr ([], record_event (Index_query query_embedding n)
                      (record_event (Embedding_create (replace_newlines query)) s))
       \<and> execution_agent env query task s =
           openai_call env (Execution_prompt query [] task) (USE_GPT4 env) 0.7 2000
             (record_event (Index_query query_embedding 5)
                (record_event (Embedding_create (replace_newlines query)) s))"
proof -
  have "execution_agent env query task s =
      openai_call env (Execution_prompt query [] task) (USE_GPT4 env) 0.7 2000
        (record_event (Index_query query_embedding 5)
           (record_event (Embedding_create (replace_newlines query)) s))"
    unfolding execution_agent_def
    by (simp only: context_agent_no_matches [OF assms(1,3)] sum.case prod.case)
  with context_agent_no_matches [OF assms(1,2)] show ?thesis by simp
qed

theorem context_agent_empty_witness:
  "returned (context_agent poem_env ''Write a poem'' 5 poem_start) = Some []
   \<and> returned (execution_agent poem_env ''Write a poem'' ''Draft first stanza'' poem_start) =
       Some ''Roses are red...''"
proof -
  have a: "embedding_create poem_env (history poem_start) (replace_newlines ''Write a poem'') = Some [0]"
    by (simp add: poem_env_def)
  have b: "index_query poem_env (history poem_start @ [Embedding_create (replace_newlines ''Write a poem'')])
       (index poem_start) [0] 5 = Some []"
    by (simp add: poem_env_def)
  show ?thesis
    using context_agent_empty [OF a b b, of "''Draft first stanza''"]
    by (simp add: openai_call_def poem_env_def strip_def isspace_def)
qed

subsection \<open>Unfolding an iteration\<close>

lemma foldl_number_task:
  "foldl number_task s cs =
     s\<lparr>task_list := task_list s @ numbered (task_id_counter s) cs,
       task_id_counter := task_id_counter s + int (length cs),
       history := history s @ map Add_task (numbered (task_id_counter s) cs)\<rparr>"
proof (induction cs arbitrary: s)
  case Nil
  show ?case by simp
next
  case (Cons c cs)
  have "foldl number_task s (c # cs) = foldl number_task (number_task s c) cs" by simp
  also have "\<dots> = (number_task s c)\<lparr>task_list := task_list (number_task s c) @ numbered (task_id_counter (number_task s c)) cs,
       task_id_counter := task_id_counter (number_task s c) + int (length cs),
       history := history (number_task s c) @ map Add_task (numbered (task_id_counter (number_task s c)) cs)\<rparr>"
    by (rule Cons.IH)
  also have "\<dots> = s\<lparr>task_list := task_list s @ numbered (task_id_counter s) (c # cs),
       task_id_counter := task_id_counter s + int (length (c # cs)),
       history := history s @ map Add_task (numbered (task_id_counter s) (c # cs))\<rparr>"
    by (simp add: number_task_def add_task_def record_event_def Let_def)
  finally show ?case .
qed

lemma openai_call_eq:
  "openai_call env p g t m s =
     (case model_reply env g (history s) p t m of
        None \<Rightarrow> Inl (ProviderError, record_event (Completion_create g p t m) s)
      | Some text \<Rightarrow> Inr (strip text, record_event (Completion_create g p t m) s))"
  by (simp add: openai_call_def model_reply_def Let_def)

lemmas iteration_unfold =
  iteration_def store_result_def create_and_reprioritize_def execution_agent_def context_agent_def get_ada_embedding_def
  openai_call_eq upsert_def task_creation_agent_def prioritization_agent_def sleep_def
  record_event_def Let_def foldl_number_task foldl_append_task_string

subsection \<open>The idle loop\<close>

lemma iteration_idle: "task_list s = [] \<Longrightarrow> iteration env s = Inr (sleep 1 s)"
  by (simp add: iteration_def)

lemma iterations_idle:
  "task_list s = [] \<Longrightarrow>
     iterations n env s = Inr (s\<lparr>history := history s @ replicate n (Sleep 1)\<rparr>)"
proof (induction n arbitrary: s)
  case 0
  show ?case by simp
next
  case (Suc n)
  have "task_list (sleep 1 s) = []" using Suc.prems by (simp add: sleep_def record_event_def)
  then have "iterations n env (sleep 1 s) =
      Inr ((sleep 1 s)\<lparr>history := history (sleep 1 s) @ replicate n (Sleep 1)\<rparr>)"
    by (rule Suc.IH)
  then show ?case
    using Suc.prems
    by (simp add: iteration_idle sleep_def record_event_def replicate_app_Cons_same)
qed

lemma main_loop_Some_nonempty:
  assumes "main_loop env s = Some y"
  shows "task_list s \<noteq> []"
proof (rule main_loop.raw_induct [where P = "\<lambda>env s y. task_list s \<noteq> []", OF _ assms])
  fix f :: "env \<Rightarrow> state \<Rightarrow> (error \<times> state) option" and env s y
  assume IH: "\<And>env s y. f env s = Some y \<Longrightarrow> task_list s \<noteq> []"
    and step: "(case iteration env s of Inl e \<Rightarrow> Some e | Inr s' \<Rightarrow> f env s') = Some y"
  show "task_list s \<noteq> []"
  proof
    assume e: "task_list s = []"
    then have "f env (sleep 1 s) = Some y"
      using step by (simp add: iteration_idle)
    then have "task_list (sleep 1 s) \<noteq> []" by (rule IH)
    with e show False by (simp add: sleep_def record_event_def)
  qed
qed

lemma main_loop_Some_raised:
  assumes "main_loop env s = Some y"
  shows "\<exists>n. iterations n env s = Inl y"
proof (rule main_loop.raw_induct [where P = "\<lambda>env s y. \<exists>n. iterations n env s = Inl y", OF _ assms])
  fix f :: "env \<Rightarrow> state \<Rightarrow> (error \<times> state) option" and env s y
  assume IH: "\<And>env s y. f env s = Some y \<Longrightarrow> \<exists>n. iterations n env s = Inl y"
    and step: "(case iteration env s of Inl e \<Rightarrow> Some e | Inr s' \<Rightarrow> f env s') = Some y"
  show "\<exists>n. iterations n env s = Inl y"
  proof (cases "iteration env s")
    case (Inl e)
    with step have "iterations (Suc 0) env s = Inl y" by simp
    then show ?thesis by blast
  next
    case (Inr s')
    with step have "f env s' = Some y" by simp
    then obtain n where "iterations n env s' = Inl y" using IH by blast
    with Inr have "iterations (Suc n) env s = Inl y" by simp
    then show ?thesis by blast
  qed
qed

lemma down_raises:
  "iteration down_env poem_start =
     Inl (ProviderError,
          \<lparr>task_list = [], task_id_counter = 1, index = Map.empty,
           history = [Add_task \<lparr>task_name = ''Draft first stanza'', task_id = IntId 1\<rparr>,
                      Popleft \<lparr>task_name = ''Draft first stanza'', task_id = IntId 1\<rparr>,
                      Embedding_create ''Write a poem'']\<rparr>)"
  by (simp add: iteration_unfold down_env_def poem_env_def poem_start_def initial_state_def
      add_task_def replace_newlines_def)

text \<open>
  Claim C6. The main loop never returns. With an empty queue an iteration does not raise
  and pops nothing: it sleeps one time unit and leaves the state as it was; so do any
  number of iterations, and the loop runs forever. From any state, the only way the
  loop ends is an exception raised by one of its iterations.
\<close>

theorem main_loop_never_returns:
  "(task_list s = [] \<longrightarrow>
      iteration env s = Inr (sleep 1 s)
    \<and> iterations n env s = Inr (s\<lparr>history := history s @ replicate n (Sleep 1)\<rparr>)
    \<and> main_loop env s = None)
   \<and> (main_loop env s0 = Some (e, s1) \<longrightarrow> (\<exists>k. iterations k env s0 = Inl (e, s1)))"
proof -
  have "main_loop env s = None" if "task_list s = []"
    using that main_loop_Some_nonempty [of env s] by (cases "main_loop env s") auto
  then show ?thesis
    using iteration_idle [of s env] iterations_idle [of s n env] main_loop_Some_raised [of env s0 "(e, s1)"]
    by blast
qed

theorem main_loop_never_returns_witness:
  "main_loop poem_env idle_state = None
   \<and> iterations 3 poem_env idle_state = Inr (idle_state\<lparr>history := [Sleep 1, Sleep 1, Sleep 1]\<rparr>)
   \<and> main_loop down_env poem_start =
       Some (ProviderError,
          \<lparr>task_list = [], task_id_counter = 1, index = Map.empty,
           history = [Add_task \<lparr>task_name = ''Draft first stanza'', task_id = IntId 1\<rparr>,
                      Popleft \<lparr>task_name = ''Draft first stanza'', task_id = IntId 1\<rparr>,
                      Embedding_create ''Write a poem'']\<rparr>)
   \<and> (\<exists>k. iterations k down_env poem_start = Inl (ProviderError,
          \<lparr>task_list = [], task_id_counter = 1, index = Map.empty,
           history = [Add_task \<lparr>task_name = ''Draft first stanza'', task_id = IntId 1\<rparr>,
                      Popleft \<lparr>task_name = ''Draft first stanza'', task_id = IntId 1\<rparr>,
                      Embedding_create ''Write a poem'']\<rparr>))"
proof -
  have a: "task_list idle_state = []" by (simp add: idle_state_def)
  have b: "main_loop down_env poem_start =
       Some (ProviderError,
          \<lparr>task_list = [], task_id_counter = 1, index = Map.empty,
           history = [Add_task \<lparr>task_name = ''Draft first stanza'', task_id = IntId 1\<rparr>,
                      Popleft \<lparr>task_name = ''Draft first stanza'', task_id = IntId 1\<rparr>,
                      Embedding_create ''Write a poem'']\<rparr>)"
    by (subst main_loop.simps) (simp add: down_raises)
  have c: "replicate 3 (Sleep 1) = [Sleep 1, Sleep 1, Sleep 1]" by (simp add: numeral_3_eq_3)
  show ?thesis
    using main_loop_never_returns [of idle_state poem_env 3 idle_state ProviderError idle_state]
      main_loop_never_returns [of idle_state down_env 0 poem_start ProviderError
        "\<lparr>task_list = [], task_id_counter = 1, index = Map.empty,
           history = [Add_task \<lparr>task_name = ''Draft first stanza'', task_id = IntId 1\<rparr>,
                      Popleft \<lparr>task_name = ''Draft first stanza'', task_id = IntId 1\<rparr>,
                      Embedding_create ''Write a poem'']\<rparr>"] a b c
    by (simp add: idle_state_def)
qed

subsection \<open>The example run, evaluated\<close>

lemma str_int_1: "str_int 1 = ''1''"
  by code_simp

lemma poem_first_iteration:
  "iteration poem_env poem_start =
     Inr \<lparr>task_list =
            [\<lparr>task_name = ''Write the second stanza'', task_id = StrId ''#''\<rparr>,
             \<lparr>task_name = ''Clean the kitchen'', task_id = StrId ''3''\<rparr>],
          task_id_counter = 4,
          index = [''result_1'' \<mapsto> ([0], [(''task'', ''Draft first stanza''), (''result'', ''Roses are red...'')])],
          history =
            [Add_task \<lparr>task_name = ''Draft first stanza'', task_id = IntId 1\<rparr>,
             Popleft \<lparr>task_name = ''Draft first stanza'', task_id = IntId 1\<rparr>,
             Embedding_create ''Write a poem'',
             Index_query [0] 5,
             Completion_create False (Execution_prompt ''Write a poem'' [] ''Draft first stanza'') 0.7 2000,
             Embedding_create ''Roses are red...'',
             Index_upsert ''result_1'' [0] [(''task'', ''Draft first stanza''), (''result'', ''Roses are red...'')] True,
             Completion_create False (Creation_prompt ''Write a poem'' ''Roses are red...'' ''Draft first stanza'' []) 0.5 100,
             Add_task \<lparr>task_name = ''Write the second stanza'', task_id = IntId 2\<rparr>,
             Add_task \<lparr>task_name = '''', task_id = IntId 3\<rparr>,
             Add_task \<lparr>task_name = ''Pick a title'', task_id = IntId 4\<rparr>,
             Completion_create False
               (Prioritization_prompt [''Write the second stanza'', '''', ''Pick a title''] ''Write a poem'' 2) 0.5 100,
             Sleep 1]\<rparr>"
  by (simp add: iteration_unfold model_reply_def poem_env_def poem_start_def initial_state_def
      add_task_def replace_newlines_def sorted_reverse_def strip_def isspace_def
      split_poem_creation split_poem_prioritization str_int_1 task_of_line_def)

lemma poem_start_queue:
  "task_list poem_start = [\<lparr>task_name = ''Draft first stanza'', task_id = IntId 1\<rparr>]"
  by (simp add: poem_start_def initial_state_def add_task_def record_event_def poem_env_def)

lemma poem_second_queue:
  "task_list poem_second =
     [\<lparr>task_name = ''Write the second stanza'', task_id = StrId ''#''\<rparr>,
      \<lparr>task_name = ''Clean the kitchen'', task_id = StrId ''3''\<rparr>]"
  by (simp add: poem_second_def poem_first_iteration)

subsection \<open>A task id that is not a number\<close>

lemma execution_agent_returns:
  "execution_agent env objective task s = Inr (result, s') \<Longrightarrow>
     is_execution (last (history s')) \<and> index s' = index s"
  by (auto simp: execution_agent_def context_agent_def get_ada_embedding_def openai_call_eq
      record_event_def Let_def split: option.splits)

text \<open>
  Claim C9. When the popped task's id is a string that \<^verbatim>\<open>int\<close> does not parse, the
  iteration raises: if the execution agent itself raises, with its exception, and
  otherwise with \<^verbatim>\<open>ValueError\<close> at the conversion, in the state the execution call left
  (its model call is the last event). Either way no upsert is made in the iteration and
  the index is what it was: the result is never stored.
\<close>

theorem unparseable_id_raises_before_store:
  assumes "task_list s = task # rest" and "task_id task = StrId x" and "int_of_string x = None"
  shows "(case execution_agent env (OBJECTIVE env) (task_name task)
                 (record_event (Popleft task) (s\<lparr>task_list := rest\<rparr>)) of
            Inl e \<Rightarrow> iteration env s = Inl e
          | Inr (result, s2) \<Rightarrow>
              iteration env s = Inl (ValueError, s2) \<and> is_execution (last (history s2)))
       \<and> index (final_state (iteration env s)) = index s
       \<and> \<not> list_ex is_upsert (events_of env s)"
proof -
  let ?s1 = "record_event (Popleft task) (s\<lparr>task_list := rest\<rparr>)"
  let ?r = "execution_agent env (OBJECTIVE env) (task_name task) ?s1"
  have a: "(case ?r of Inl e \<Rightarrow> iteration env s = Inl e
          | Inr (result, s2) \<Rightarrow>
              iteration env s = Inl (ValueError, s2) \<and> is_execution (last (history s2)))"
  proof (cases ?r)
    case (Inl e)
    then show ?thesis using assms(1) by (simp add: iteration_def Let_def)
  next
    case (Inr p)
    obtain result s2 where p: "p = (result, s2)" by (cases p)
    have "is_execution (last (history s2))"
      using execution_agent_returns [of env "OBJECTIVE env" "task_name task" ?s1 result s2] Inr p
      by simp
    then show ?thesis using assms Inr p by (simp add: iteration_def Let_def)
  qed
  have b: "index (final_state (iteration env s)) = index s"
    using assms by (simp add: iteration_unfold split: option.splits)
  have c: "\<not> list_ex is_upsert (events_of env s)"
    using assms by (simp add: events_of_def iteration_unfold split: option.splits)
  from a b c show ?thesis by blast
qed

theorem unparseable_id_raises_before_store_witness:
  "\<exists>s2. iteration poem_env poem_second = Inl (ValueError, s2)
        \<and> index s2 = index poem_second
        \<and> last (history s2) =
            Completion_create False
              (Execution_prompt ''Write a poem'' [] ''Write the second stanza'') 0.7 2000"
proof -
  have x: "int_of_string ''#'' = None" by code_simp
  have t: "task_id \<lparr>task_name = ''Write the second stanza'', task_id = StrId ''#''\<rparr> = StrId ''#''"
    by simp
  have e: "execution_agent poem_env (OBJECTIVE poem_env) ''Write the second stanza''
             (poem_second
              \<lparr>task_list := [\<lparr>task_name = ''Clean the kitchen'', task_id = StrId ''3''\<rparr>],
                history := history poem_second @
                  [Popleft \<lparr>task_name = ''Write the second stanza'', task_id = StrId ''#''\<rparr>]\<rparr>) =
           Inr (''Roses are red...'',
             poem_second
              \<lparr>task_list := [\<lparr>task_name = ''Clean the kitchen'', task_id = StrId ''3''\<rparr>],
                history := history poem_second @
                  [Popleft \<lparr>task_name = ''Write the second stanza'', task_id = StrId ''#''\<rparr>,
                   Embedding_create ''Write a poem'',
                   Index_query [0] 5,
                   Completion_create False
                     (Execution_prompt ''Write a poem'' [] ''Write the second stanza'') 0.7 2000]\<rparr>)"
    by (simp add: execution_agent_def context_agent_def get_ada_embedding_def openai_call_eq
        model_reply_def poem_env_def Let_def record_event_def replace_newlines_def
        sorted_reverse_def strip_def isspace_def)
  show ?thesis
    using unparseable_id_raises_before_store [OF poem_second_queue t x, of poem_env]
    by (simp add: e record_event_def)
qed

subsection \<open>What each step of an iteration does\<close>

lemma assigned_ids_append: "assigned_ids (xs @ ys) = assigned_ids xs @ assigned_ids ys"
  by (simp add: assigned_ids_def)

lemma assigned_ids_Nil: "assigned_ids [] = []"
  by (simp add: assigned_ids_def)

lemma assigned_ids_Cons: "assigned_ids (e # es) = assigned_id e @ assigned_ids es"
  by (simp add: assigned_ids_def)

lemma length_numbered: "length (numbered c cs) = length cs"
  by (induction cs arbitrary: c) auto

lemma kinds_numbered: "map kind_of (map Add_task (numbered c cs)) = replicate (length cs) Adds"
  by (induction cs arbitrary: c) auto

lemma assigned_ids_numbered:
  "assigned_ids (map Add_task (numbered c cs)) = [c + 1 .. c + int (length cs)]"
proof (induction cs arbitrary: c)
  case Nil
  show ?case by (simp add: assigned_ids_Nil)
next
  case (Cons x xs)
  have "assigned_ids (map Add_task (numbered c (x # xs))) =
      (c + 1) # assigned_ids (map Add_task (numbered (c + 1) xs))"
    by (simp add: assigned_ids_Cons)
  also have "\<dots> = (c + 1) # [c + 1 + 1 .. c + 1 + int (length xs)]"
    by (simp only: Cons.IH)
  also have "\<dots> = (c + 1) # [c + 1 + 1 .. c + int (length (x # xs))]"
    by (simp add: algebra_simps)
  also have "\<dots> = [c + 1 .. c + int (length (x # xs))]"
    by (rule upto_rec1 [symmetric]) simp
  finally show ?case .
qed

lemma no_adds: "Adds \<notin> set (map kind_of evs) \<Longrightarrow> assigned_ids evs = []"
proof (induction evs)
  case Nil
  show ?case by (simp add: assigned_ids_Nil)
next
  case (Cons e es)
  then have "kind_of e \<noteq> Adds" by auto
  then have "assigned_id e = []" by (cases e) auto
  with Cons show ?case by (simp add: assigned_ids_Cons)
qed

lemma no_upserts: "\<forall>ok. Upserts ok \<notin> set (map kind_of evs) \<Longrightarrow> filter is_upsert evs = []"
proof (induction evs)
  case Nil
  show ?case by simp
next
  case (Cons e es)
  then have "\<forall>ok. kind_of e \<noteq> Upserts ok" by auto
  then have "\<not> is_upsert e" by (cases e) auto
  with Cons show ?case by simp
qed

lemma execution_agent_raises:
  "execution_agent env objective task s = Inl (e, s') \<Longrightarrow>
     \<exists>evs. s' = s\<lparr>history := history s @ evs\<rparr>
          \<and> prefix (map kind_of evs) [Embeds, Queries, Executes]"
  by (auto simp: execution_agent_def context_agent_def get_ada_embedding_def openai_call_eq
      record_event_def Let_def split: option.splits)

lemma execution_agent_returns_shape:
  "execution_agent env objective task s = Inr (result, s') \<Longrightarrow>
     \<exists>evs. s' = s\<lparr>history := history s @ evs\<rparr>
          \<and> map kind_of evs = [Embeds, Queries, Executes]"
  by (auto simp: execution_agent_def context_agent_def get_ada_embedding_def openai_call_eq
      record_event_def Let_def split: option.splits)

lemma store_result_raises:
  "store_result env task result s = Inl (e, s') \<Longrightarrow>
     (embedding_create env (history s) (replace_newlines result) = None
      \<and> s' = s\<lparr>history := history s @ [Embedding_create (replace_newlines result)]\<rparr>)
   \<or> (\<exists>vec. embedding_create env (history s) (replace_newlines result) = Some vec
      \<and> s' = s\<lparr>history := history s @
                 [Embedding_create (replace_newlines result),
                  Index_upsert (''result_'' @ py_str (task_id task)) vec
                    [(''task'', task_name task), (''result'', result)] False]\<rparr>)"
  by (auto simp: store_result_def get_ada_embedding_def upsert_def record_event_def Let_def
      split: option.splits if_splits)

lemma store_result_returns:
  "store_result env task result s = Inr s' \<Longrightarrow>
     \<exists>vec. embedding_create env (history s) (replace_newlines result) = Some vec
      \<and> s' = s\<lparr>index := (index s)(''result_'' @ py_str (task_id task) \<mapsto>
                            (vec, [(''task'', task_name task), (''result'', result)])),
               history := history s @
                 [Embedding_create (replace_newlines result),
                  Index_upsert (''result_'' @ py_str (task_id task)) vec
                    [(''task'', task_name task), (''result'', result)] True]\<rparr>"
  by (auto simp: store_result_def get_ada_embedding_def upsert_def record_event_def Let_def
      split: option.splits if_splits)

lemma create_and_reprioritize_raises:
  "create_and_reprioritize env task result this_task_id s = Inl (e, s') \<Longrightarrow>
     \<exists>(cs :: candidate list) tl evs. s' = s\<lparr>task_list := tl,
                        task_id_counter := task_id_counter s + int (length cs),
                        history := history s @ evs\<rparr>
        \<and> prefix (map kind_of evs) (Creates # replicate (length cs) Adds @ [Prioritizes])
        \<and> assigned_ids evs = [task_id_counter s + 1 .. task_id_counter s + int (length cs)]"
proof -
  assume a: "create_and_reprioritize env task result this_task_id s = Inl (e, s')"
  let ?p = "Creation_prompt (OBJECTIVE env) result (task_name task) (map task_name (task_list s))"
  let ?c = "Completion_create (USE_GPT4 env) ?p 0.5 100"
  show ?thesis
  proof (cases "model_reply env (USE_GPT4 env) (history s) ?p 0.5 100")
    case None
    let ?none = "[] :: candidate list"
    from a None have "s' = s\<lparr>task_list := task_list s,
        task_id_counter := task_id_counter s + int (length ?none),
        history := history s @ [?c]\<rparr>"
      by (simp add: create_and_reprioritize_def task_creation_agent_def openai_call_eq
          record_event_def)
    moreover have "prefix (map kind_of [?c]) (Creates # replicate (length ?none) Adds @ [Prioritizes])"
      by simp
    moreover have "assigned_ids [?c] =
        [task_id_counter s + 1 .. task_id_counter s + int (length ?none)]"
      by (simp add: assigned_ids_Cons assigned_ids_Nil)
    ultimately have c: "s' = s\<lparr>task_list := task_list s,
        task_id_counter := task_id_counter s + int (length ?none),
        history := history s @ [?c]\<rparr>
      \<and> prefix (map kind_of [?c]) (Creates # replicate (length ?none) Adds @ [Prioritizes])
      \<and> assigned_ids [?c] = [task_id_counter s + 1 .. task_id_counter s + int (length ?none)]"
      by simp
    show ?thesis
      by (intro exI) (rule c)
  next
    case (Some reply)
    let ?cs = "map (\<lambda>n. \<lparr>task_name = n\<rparr>) (split_on CHR 0x0A (strip reply))"
    let ?adds = "map Add_task (numbered (task_id_counter s) ?cs)"
    let ?s1 = "foldl number_task (record_event ?c s) ?cs"
    let ?q = "Prioritization_prompt (map task_name (task_list ?s1)) (OBJECTIVE env) (this_task_id + 1)"
    let ?d = "Completion_create (USE_GPT4 env) ?q 0.5 100"
    from a Some have r: "prioritization_agent env this_task_id ?s1 = Inl (e, s')"
      by (simp add: create_and_reprioritize_def task_creation_agent_def openai_call_eq Let_def)
    then have "model_reply env (USE_GPT4 env) (history ?s1) ?q 0.5 100 = None"
      by (simp add: prioritization_agent_def openai_call_eq Let_def split: option.splits)
    with r have "s' = record_event ?d ?s1"
      by (simp add: prioritization_agent_def openai_call_eq Let_def)
    then have "s' = s\<lparr>task_list := task_list s @ numbered (task_id_counter s) ?cs,
        task_id_counter := task_id_counter s + int (length ?cs),
        history := history s @ (?c # ?adds @ [?d])\<rparr>"
      by (simp add: foldl_number_task record_event_def)
    moreover have "map kind_of (?c # ?adds @ [?d]) = Creates # replicate (length ?cs) Adds @ [Prioritizes]"
      by (simp only: map_append list.map kinds_numbered kind_of.simps)
    then have "prefix (map kind_of (?c # ?adds @ [?d])) (Creates # replicate (length ?cs) Adds @ [Prioritizes])"
      by (simp only: prefix_order.order_refl)
    moreover have "assigned_ids (?c # ?adds @ [?d]) =
        [task_id_counter s + 1 .. task_id_counter s + int (length ?cs)]"
      by (simp add: assigned_ids_Cons assigned_ids_append assigned_ids_numbered assigned_ids_Nil)
    ultimately have c: "s' = s\<lparr>task_list := task_list s @ numbered (task_id_counter s) ?cs,
        task_id_counter := task_id_counter s + int (length ?cs),
        history := history s @ (?c # ?adds @ [?d])\<rparr>
      \<and> prefix (map kind_of (?c # ?adds @ [?d])) (Creates # replicate (length ?cs) Adds @ [Prioritizes])
      \<and> assigned_ids (?c # ?adds @ [?d]) =
        [task_id_counter s + 1 .. task_id_counter s + int (length ?cs)]"
      by simp
    show ?thesis
      by (intro exI) (rule c)
  qed
qed

lemma create_and_reprioritize_returns:
  "create_and_reprioritize env task result this_task_id s = Inr s' \<Longrightarrow>
     \<exists>(cs :: candidate list) tl evs. s' = s\<lparr>task_list := tl,
                        task_id_counter := task_id_counter s + int (length cs),
                        history := history s @ evs\<rparr>
        \<and> map kind_of evs = Creates # replicate (length cs) Adds @ [Prioritizes]
        \<and> assigned_ids evs = [task_id_counter s + 1 .. task_id_counter s + int (length cs)]"
proof -
  assume a: "create_and_reprioritize env task result this_task_id s = Inr s'"
  let ?p = "Creation_prompt (OBJECTIVE env) result (task_name task) (map task_name (task_list s))"
  let ?c = "Completion_create (USE_GPT4 env) ?p 0.5 100"
  from a obtain reply where Some: "model_reply env (USE_GPT4 env) (history s) ?p 0.5 100 = Some reply"
    by (cases "model_reply env (USE_GPT4 env) (history s) ?p 0.5 100")
      (simp_all add: create_and_reprioritize_def task_creation_agent_def openai_call_eq)
  let ?cs = "map (\<lambda>n. \<lparr>task_name = n\<rparr>) (split_on CHR 0x0A (strip reply))"
  let ?adds = "map Add_task (numbered (task_id_counter s) ?cs)"
  let ?s1 = "foldl number_task (record_event ?c s) ?cs"
  let ?q = "Prioritization_prompt (map task_name (task_list ?s1)) (OBJECTIVE env) (this_task_id + 1)"
  let ?d = "Completion_create (USE_GPT4 env) ?q 0.5 100"
  from a Some have r: "prioritization_agent env this_task_id ?s1 = Inr s'"
    by (simp add: create_and_reprioritize_def task_creation_agent_def openai_call_eq Let_def)
  then obtain reply2 where "model_reply env (USE_GPT4 env) (history ?s1) ?q 0.5 100 = Some reply2"
    by (cases "model_reply env (USE_GPT4 env) (history ?s1) ?q 0.5 100")
      (simp_all add: prioritization_agent_def openai_call_eq Let_def)
  with r have "s' = foldl append_task_string ((record_event ?d ?s1)\<lparr>task_list := []\<rparr>)
      (split_on CHR 0x0A (strip reply2))"
    by (simp add: prioritization_agent_def openai_call_eq Let_def)
  then have "s' = s\<lparr>task_list := task_list s',
        task_id_counter := task_id_counter s + int (length ?cs),
        history := history s @ (?c # ?adds @ [?d])\<rparr>"
    by (simp add: foldl_append_task_string foldl_number_task record_event_def)
  moreover have "map kind_of (?c # ?adds @ [?d]) = Creates # replicate (length ?cs) Adds @ [Prioritizes]"
    by (simp only: map_append list.map kinds_numbered kind_of.simps)
  moreover have "assigned_ids (?c # ?adds @ [?d]) =
        [task_id_counter s + 1 .. task_id_counter s + int (length ?cs)]"
    by (simp add: assigned_ids_Cons assigned_ids_append assigned_ids_numbered assigned_ids_Nil)
  ultimately have c: "s' = s\<lparr>task_list := task_list s',
        task_id_counter := task_id_counter s + int (length ?cs),
        history := history s @ (?c # ?adds @ [?d])\<rparr>
      \<and> map kind_of (?c # ?adds @ [?d]) = Creates # replicate (length ?cs) Adds @ [Prioritizes]
      \<and> assigned_ids (?c # ?adds @ [?d]) =
        [task_id_counter s + 1 .. task_id_counter s + int (length ?cs)]"
    by simp
  show ?thesis
    by (intro exI) (rule c)
qed


lemma prefix_kinds_extend: "prefix xs ys \<Longrightarrow> prefix xs (ys @ zs)"
  by (rule prefix_prefix)

lemma shape_store_raises:
  assumes q: "task_list s = task # rest"
    and ex: "execution_agent env (OBJECTIVE env) (task_name task)
              (record_event (Popleft task) (s\<lparr>task_list := rest\<rparr>)) = Inr (result, s2)"
    and s2': "s2 = s\<lparr>task_list := rest, history := history s @ Popleft task # evs\<rparr>"
    and Some: "py_int (task_id task) = Some this_task_id"
    and Inl: "store_result env task result s2 = Inl (e, s3)"
  shows "final_state (iteration env s) =
           s\<lparr>task_list := rest, history := history s @
                 Popleft task # (evs @ [Embedding_create (replace_newlines result)])\<rparr>
       \<or> (\<exists>vec. embedding_create env (history s2) (replace_newlines result) = Some vec
          \<and> final_state (iteration env s) =
           s\<lparr>task_list := rest, history := history s @ Popleft task # evs @
                  [Embedding_create (replace_newlines result),
                   Index_upsert (''result_'' @ py_str (task_id task)) vec
                     [(''task'', task_name task), (''result'', result)] False]\<rparr>)"
proof -
  have f: "final_state (iteration env s) = s3"
    using q ex Some Inl by (simp add: iteration_def Let_def)
  from store_result_raises [OF Inl] show ?thesis
  proof
    assume "embedding_create env (history s2) (replace_newlines result) = None \<and>
      s3 = s2\<lparr>history := history s2 @ [Embedding_create (replace_newlines result)]\<rparr>"
    then have "final_state (iteration env s) =
           s\<lparr>task_list := rest, history := history s @
                 Popleft task # (evs @ [Embedding_create (replace_newlines result)])\<rparr>"
      by (simp add: f s2')
    then show ?thesis ..
  next
    assume "\<exists>vec. embedding_create env (history s2) (replace_newlines result) = Some vec \<and>
      s3 = s2\<lparr>history := history s2 @
                 [Embedding_create (replace_newlines result),
                  Index_upsert (''result_'' @ py_str (task_id task)) vec
                    [(''task'', task_name task), (''result'', result)] False]\<rparr>"
    then obtain vec where em: "embedding_create env (history s2) (replace_newlines result) = Some vec"
      and s3: "s3 = s2\<lparr>history := history s2 @
                 [Embedding_create (replace_newlines result),
                  Index_upsert (''result_'' @ py_str (task_id task)) vec
                    [(''task'', task_name task), (''result'', result)] False]\<rparr>"
      by (elim exE conjE)
    have "final_state (iteration env s) =
           s\<lparr>task_list := rest, history := history s @ Popleft task # evs @
                  [Embedding_create (replace_newlines result),
                   Index_upsert (''result_'' @ py_str (task_id task)) vec
                     [(''task'', task_name task), (''result'', result)] False]\<rparr>"
      by (simp add: f s3 s2')
    with em have "\<exists>vec. embedding_create env (history s2) (replace_newlines result) = Some vec
          \<and> final_state (iteration env s) =
           s\<lparr>task_list := rest, history := history s @ Popleft task # evs @
                  [Embedding_create (replace_newlines result),
                   Index_upsert (''result_'' @ py_str (task_id task)) vec
                     [(''task'', task_name task), (''result'', result)] False]\<rparr>"
      by (intro exI conjI)
    then show ?thesis ..
  qed
qed


lemma shape_stored:
  assumes q: "task_list s = task # rest"
    and ex: "execution_agent env (OBJECTIVE env) (task_name task)
              (record_event (Popleft task) (s\<lparr>task_list := rest\<rparr>)) = Inr (result, s2)"
    and s2': "s2 = s\<lparr>task_list := rest, history := history s @ Popleft task # evs\<rparr>"
    and Some: "py_int (task_id task) = Some this_task_id"
    and st: "store_result env task result s2 = Inr s3"
    and s3: "s3 = s2\<lparr>index := (index s2)(''result_'' @ py_str (task_id task) \<mapsto>
                            (vec, [(''task'', task_name task), (''result'', result)])),
               history := history s2 @
                 [Embedding_create (replace_newlines result),
                  Index_upsert (''result_'' @ py_str (task_id task)) vec
                    [(''task'', task_name task), (''result'', result)] True]\<rparr>"
  shows "\<exists>(cs :: candidate list) tl evs3.
           final_state (iteration env s) =
              s\<lparr>task_list := tl,
                task_id_counter := task_id_counter s + int (length cs),
                index := (index s)(''result_'' @ py_str (task_id task) \<mapsto>
                            (vec, [(''task'', task_name task), (''result'', result)])),
                history := history s @ Popleft task # evs @
                  [Embedding_create (replace_newlines result),
                   Index_upsert (''result_'' @ py_str (task_id task)) vec
                     [(''task'', task_name task), (''result'', result)] True] @ evs3\<rparr>
          \<and> prefix (map kind_of evs3) (Creates # replicate (length cs) Adds @ [Prioritizes, Sleeps])
          \<and> assigned_ids evs3 = [task_id_counter s + 1 .. task_id_counter s + int (length cs)]"
proof -
  have c3: "task_id_counter s3 = task_id_counter s" by (simp add: s3 s2')
  show ?thesis
  proof (cases "create_and_reprioritize env task result this_task_id s3")
    case (Inl p4)
    obtain e s4 where p4: "p4 = (e, s4)" by (cases p4)
    have r: "create_and_reprioritize env task result this_task_id s3 = Inl (e, s4)"
      using Inl p4 by simp
    have f: "final_state (iteration env s) = s4"
      using q ex Some st r by (simp add: iteration_def Let_def)
    from create_and_reprioritize_raises [OF r]
    obtain cs :: "candidate list" and tl evs3
      where s4: "s4 = s3\<lparr>task_list := tl,
                  task_id_counter := task_id_counter s3 + int (length cs),
                  history := history s3 @ evs3\<rparr>"
        and k3: "prefix (map kind_of evs3) (Creates # replicate (length cs) Adds @ [Prioritizes])"
        and a3: "assigned_ids evs3 = [task_id_counter s3 + 1 .. task_id_counter s3 + int (length cs)]"
      by (elim exE conjE)
    have fb: "final_state (iteration env s) =
        s\<lparr>task_list := tl,
          task_id_counter := task_id_counter s + int (length cs),
          index := (index s)(''result_'' @ py_str (task_id task) \<mapsto>
                            (vec, [(''task'', task_name task), (''result'', result)])),
          history := history s @ Popleft task # evs @
            [Embedding_create (replace_newlines result),
             Index_upsert (''result_'' @ py_str (task_id task)) vec
               [(''task'', task_name task), (''result'', result)] True] @ evs3\<rparr>"
      by (simp add: f s4 s3 s2')
    have pb: "prefix (map kind_of evs3)
        (Creates # replicate (length cs) Adds @ [Prioritizes, Sleeps])"
      using prefix_prefix [OF k3, of "[Sleeps]"] by simp
    have ab: "assigned_ids evs3 = [task_id_counter s + 1 .. task_id_counter s + int (length cs)]"
      using a3 c3 by simp
    show ?thesis
      by (rule exI [of _ cs], rule exI [of _ tl], rule exI [of _ evs3])
        (rule conjI [OF fb conjI [OF pb ab]])
  next
    case (Inr s4)
    have f: "final_state (iteration env s) = sleep 1 s4"
      using q ex Some st Inr by (simp add: iteration_def Let_def)
    from create_and_reprioritize_returns [OF Inr]
    obtain cs :: "candidate list" and tl evs3
      where s4: "s4 = s3\<lparr>task_list := tl,
                  task_id_counter := task_id_counter s3 + int (length cs),
                  history := history s3 @ evs3\<rparr>"
        and k3: "map kind_of evs3 = Creates # replicate (length cs) Adds @ [Prioritizes]"
        and a3: "assigned_ids evs3 = [task_id_counter s3 + 1 .. task_id_counter s3 + int (length cs)]"
      by (elim exE conjE)
    have fb: "final_state (iteration env s) =
        s\<lparr>task_list := tl,
          task_id_counter := task_id_counter s + int (length cs),
          index := (index s)(''result_'' @ py_str (task_id task) \<mapsto>
                            (vec, [(''task'', task_name task), (''result'', result)])),
          history := history s @ Popleft task # evs @
            [Embedding_create (replace_newlines result),
             Index_upsert (''result_'' @ py_str (task_id task)) vec
               [(''task'', task_name task), (''result'', result)] True] @ (evs3 @ [Sleep 1])\<rparr>"
      by (simp add: f s4 s3 s2' sleep_def record_event_def)
    have pb: "prefix (map kind_of (evs3 @ [Sleep 1]))
        (Creates # replicate (length cs) Adds @ [Prioritizes, Sleeps])"
      by (simp add: k3)
    have ab: "assigned_ids (evs3 @ [Sleep 1]) =
        [task_id_counter s + 1 .. task_id_counter s + int (length cs)]"
      using a3 c3 by (simp add: assigned_ids_append assigned_ids_Cons assigned_ids_Nil)
    show ?thesis
      by (rule exI [of _ cs], rule exI [of _ tl], rule exI [of _ "evs3 @ [Sleep 1]"])
        (rule conjI [OF fb conjI [OF pb ab]])
  qed
qed

lemma iteration_shape:
  assumes q: "task_list s = task # rest"
  shows "(\<exists>evs. final_state (iteration env s) =
                 s\<lparr>task_list := rest, history := history s @ Popleft task # evs\<rparr>
            \<and> prefix (map kind_of evs) [Embeds, Queries, Executes, Embeds])
       \<or> (\<exists>result s2 vec ok evs (cs :: candidate list) tl evs3.
            execution_agent env (OBJECTIVE env) (task_name task)
              (record_event (Popleft task) (s\<lparr>task_list := rest\<rparr>)) = Inr (result, s2)
          \<and> embedding_create env (history s2) (replace_newlines result) = Some vec
          \<and> map kind_of evs = [Embeds, Queries, Executes]
          \<and> final_state (iteration env s) =
              s\<lparr>task_list := tl,
                task_id_counter := task_id_counter s + int (length cs),
                index := (if ok then (index s)(''result_'' @ py_str (task_id task) \<mapsto>
                            (vec, [(''task'', task_name task), (''result'', result)]))
                          else index s),
                history := history s @ Popleft task # evs @
                  [Embedding_create (replace_newlines result),
                   Index_upsert (''result_'' @ py_str (task_id task)) vec
                     [(''task'', task_name task), (''result'', result)] ok] @ evs3\<rparr>
          \<and> (\<not> ok \<longrightarrow> evs3 = [] \<and> cs = [] \<and> tl = rest)
          \<and> prefix (map kind_of evs3) (Creates # replicate (length cs) Adds @ [Prioritizes, Sleeps])
          \<and> assigned_ids evs3 = [task_id_counter s + 1 .. task_id_counter s + int (length cs)])"
    (is "?A \<or> ?B")
proof -
  let ?s1 = "record_event (Popleft task) (s\<lparr>task_list := rest\<rparr>)"
  let ?rid = "''result_'' @ py_str (task_id task)"
  let ?meta = "\<lambda>result. [(''task'', task_name task), (''result'', result)]"
  show ?thesis
  proof (cases "execution_agent env (OBJECTIVE env) (task_name task) ?s1")
    case (Inl p)
    obtain e s2 where p: "p = (e, s2)" by (cases p)
    have r: "execution_agent env (OBJECTIVE env) (task_name task) ?s1 = Inl (e, s2)"
      using Inl p by simp
    from execution_agent_raises [OF r]
    obtain evs where s2: "s2 = ?s1\<lparr>history := history ?s1 @ evs\<rparr>"
      and k: "prefix (map kind_of evs) [Embeds, Queries, Executes]"
      by (elim exE conjE)
    have "final_state (iteration env s) = s2"
      using q r by (simp add: iteration_def Let_def)
    then have fa: "final_state (iteration env s) =
        s\<lparr>task_list := rest, history := history s @ Popleft task # evs\<rparr>"
      by (simp add: s2 record_event_def)
    have pa: "prefix (map kind_of evs) [Embeds, Queries, Executes, Embeds]"
      using prefix_prefix [OF k, of "[Embeds]"] by simp
    have ?A by (rule exI [of _ evs]) (rule conjI [OF fa pa])
    then show ?thesis ..
  next
    case (Inr p)
    obtain result s2 where p: "p = (result, s2)" by (cases p)
    have ex: "execution_agent env (OBJECTIVE env) (task_name task) ?s1 = Inr (result, s2)"
      using Inr p by simp
    from execution_agent_returns_shape [OF ex]
    obtain evs where s2: "s2 = ?s1\<lparr>history := history ?s1 @ evs\<rparr>"
      and k: "map kind_of evs = [Embeds, Queries, Executes]"
      by (elim exE conjE)
    have s2': "s2 = s\<lparr>task_list := rest, history := history s @ Popleft task # evs\<rparr>"
      by (simp add: s2 record_event_def)
    show ?thesis
    proof (cases "py_int (task_id task)")
      case None
      have "final_state (iteration env s) = s2"
        using q ex None by (simp add: iteration_def Let_def)
      then have fa: "final_state (iteration env s) =
          s\<lparr>task_list := rest, history := history s @ Popleft task # evs\<rparr>"
        by (simp add: s2')
      have pa: "prefix (map kind_of evs) [Embeds, Queries, Executes, Embeds]"
        by (simp add: k)
      have ?A by (rule exI [of _ evs]) (rule conjI [OF fa pa])
      then show ?thesis ..
    next
      case (Some this_task_id)
      show ?thesis
      proof (cases "store_result env task result s2")
        case (Inl p3)
        obtain e s3 where p3: "p3 = (e, s3)" by (cases p3)
        have st: "store_result env task result s2 = Inl (e, s3)" using Inl p3 by simp
        from shape_store_raises [OF q ex s2' Some st] show ?thesis
        proof
          assume fa: "final_state (iteration env s) =
              s\<lparr>task_list := rest, history := history s @
                 Popleft task # (evs @ [Embedding_create (replace_newlines result)])\<rparr>"
          have pa: "prefix (map kind_of (evs @ [Embedding_create (replace_newlines result)]))
              [Embeds, Queries, Executes, Embeds]"
            by (simp add: k)
          have ?A
            by (rule exI [of _ "evs @ [Embedding_create (replace_newlines result)]"])
              (rule conjI [OF fa pa])
          then show ?thesis ..
        next
          assume "\<exists>vec. embedding_create env (history s2) (replace_newlines result) = Some vec
            \<and> final_state (iteration env s) =
               s\<lparr>task_list := rest, history := history s @ Popleft task # evs @
                  [Embedding_create (replace_newlines result),
                   Index_upsert ?rid vec (?meta result) False]\<rparr>"
          then obtain vec
            where em: "embedding_create env (history s2) (replace_newlines result) = Some vec"
              and f: "final_state (iteration env s) =
               s\<lparr>task_list := rest, history := history s @ Popleft task # evs @
                  [Embedding_create (replace_newlines result),
                   Index_upsert ?rid vec (?meta result) False]\<rparr>"
            by (elim exE conjE)
          let ?none = "[] :: candidate list"
          let ?no_events = "[] :: event list"
          have fb: "final_state (iteration env s) =
              s\<lparr>task_list := rest,
                task_id_counter := task_id_counter s + int (length ?none),
                index := (if False then (index s)(?rid \<mapsto> (vec, ?meta result)) else index s),
                history := history s @ Popleft task # evs @
                  [Embedding_create (replace_newlines result),
                   Index_upsert ?rid vec (?meta result) False] @ ?no_events\<rparr>"
            by (simp add: f)
          have ib: "\<not> False \<longrightarrow> ?no_events = [] \<and> ?none = [] \<and> rest = rest" by simp
          have pb: "prefix (map kind_of ?no_events)
              (Creates # replicate (length ?none) Adds @ [Prioritizes, Sleeps])" by simp
          have ab: "assigned_ids ?no_events =
              [task_id_counter s + 1 .. task_id_counter s + int (length ?none)]"
            by (simp add: assigned_ids_Nil)
          have ?B
            by (rule exI [of _ result], rule exI [of _ s2], rule exI [of _ vec],
                rule exI [of _ False], rule exI [of _ evs], rule exI [of _ ?none],
                rule exI [of _ rest], rule exI [of _ ?no_events])
              (rule conjI [OF ex conjI [OF em conjI [OF k conjI [OF fb conjI [OF ib conjI [OF pb ab]]]]]])
          then show ?thesis ..
        qed
      next
        case (Inr s3)
        from store_result_returns [OF Inr] obtain vec
          where em: "embedding_create env (history s2) (replace_newlines result) = Some vec"
            and s3: "s3 = s2\<lparr>index := (index s2)(?rid \<mapsto> (vec, ?meta result)),
               history := history s2 @
                 [Embedding_create (replace_newlines result),
                  Index_upsert ?rid vec (?meta result) True]\<rparr>"
          by (elim exE conjE)
        from shape_stored [OF q ex s2' Some Inr s3]
        obtain cs :: "candidate list" and tl evs3
          where f: "final_state (iteration env s) =
              s\<lparr>task_list := tl,
                task_id_counter := task_id_counter s + int (length cs),
                index := (index s)(?rid \<mapsto> (vec, ?meta result)),
                history := history s @ Popleft task # evs @
                  [Embedding_create (replace_newlines result),
                   Index_upsert ?rid vec (?meta result) True] @ evs3\<rparr>"
            and pb: "prefix (map kind_of evs3)
                (Creates # replicate (length cs) Adds @ [Prioritizes, Sleeps])"
            and ab: "assigned_ids evs3 =
                [task_id_counter s + 1 .. task_id_counter s + int (length cs)]"
          by (elim exE conjE)
        have fb: "final_state (iteration env s) =
              s\<lparr>task_list := tl,
                task_id_counter := task_id_counter s + int (length cs),
                index := (if True then (index s)(?rid \<mapsto> (vec, ?meta result)) else index s),
                history := history s @ Popleft task # evs @
                  [Embedding_create (replace_newlines result),
                   Index_upsert ?rid vec (?meta result) True] @ evs3\<rparr>"
          by (simp add: f)
        have ib: "\<not> True \<longrightarrow> evs3 = [] \<and> cs = [] \<and> tl = rest" by simp
        have ?B
          by (rule exI [of _ result], rule exI [of _ s2], rule exI [of _ vec],
              rule exI [of _ True], rule exI [of _ evs], rule exI [of _ cs],
              rule exI [of _ tl], rule exI [of _ evs3])
            (rule conjI [OF ex conjI [OF em conjI [OF k conjI [OF fb conjI [OF ib conjI [OF pb ab]]]]]])
        then show ?thesis ..
      qed
    qed
  qed
qed


lemma kinds_subset:
  "prefix (map kind_of evs) ks \<Longrightarrow> k \<notin> set ks \<Longrightarrow> k \<notin> set (map kind_of evs)"
  using set_mono_prefix by fastforce

lemma events_of_eq:
  "final_state (iteration env s) = s'
   \<Longrightarrow> history s' = history s @ evs \<Longrightarrow> events_of env s = evs"
  by (simp add: events_of_def)

lemma poem_first_events:
  "events_of poem_env poem_start =
     [Popleft \<lparr>task_name = ''Draft first stanza'', task_id = IntId 1\<rparr>,
      Embedding_create ''Write a poem'',
      Index_query [0] 5,
      Completion_create False (Execution_prompt ''Write a poem'' [] ''Draft first stanza'') 0.7 2000,
      Embedding_create ''Roses are red...'',
      Index_upsert ''result_1'' [0] [(''task'', ''Draft first stanza''), (''result'', ''Roses are red...'')] True,
      Completion_create False (Creation_prompt ''Write a poem'' ''Roses are red...'' ''Draft first stanza'' []) 0.5 100,
      Add_task \<lparr>task_name = ''Write the second stanza'', task_id = IntId 2\<rparr>,
      Add_task \<lparr>task_name = '''', task_id = IntId 3\<rparr>,
      Add_task \<lparr>task_name = ''Pick a title'', task_id = IntId 4\<rparr>,
      Completion_create False
        (Prioritization_prompt [''Write the second stanza'', '''', ''Pick a title''] ''Write a poem'' 2) 0.5 100,
      Sleep 1]"
  using poem_first_iteration
  by (simp add: events_of_def poem_start_def initial_state_def add_task_def record_event_def)

lemma down_events:
  "events_of down_env poem_start =
     [Popleft \<lparr>task_name = ''Draft first stanza'', task_id = IntId 1\<rparr>,
      Embedding_create ''Write a poem'']"
  using down_raises
  by (simp add: events_of_def poem_start_def initial_state_def add_task_def record_event_def)

subsection \<open>The order of the steps\<close>

text \<open>
  Claim C4. In an iteration that finds a task in the queue, the events come in the order
  of the loop body, up to the point where a call raises: the task is popped first, then
  the execution agent embeds the objective, queries the index and calls the model, then
  the result is embedded and upserted, then the creation agent calls the model, then the
  new tasks are added, then the prioritization agent calls the model, then the loop
  sleeps. An upsert that fails is the last event. So the pop precedes the execution call,
  the upsert precedes the creation call, and every \<^verbatim>\<open>add_task\<close> follows a successful
  upsert: in an iteration without one the queue is the rest of the old queue and the
  counter has not moved.
\<close>

theorem iteration_order:
  assumes q: "task_list s = task # rest"
  shows "((\<exists>k. prefix (map kind_of (events_of env s))
                ([Pops, Embeds, Queries, Executes, Embeds, Upserts True, Creates]
                 @ replicate k Adds @ [Prioritizes, Sleeps]))
          \<or> map kind_of (events_of env s) =
               [Pops, Embeds, Queries, Executes, Embeds, Upserts False])
       \<and> hd (events_of env s) = Popleft task
       \<and> history (final_state (iteration env s)) = history s @ events_of env s
       \<and> (Upserts True \<notin> set (map kind_of (events_of env s)) \<longrightarrow>
            task_list (final_state (iteration env s)) = rest
          \<and> task_id_counter (final_state (iteration env s)) = task_id_counter s)"
    (is "?order \<and> ?first \<and> ?grows \<and> ?late")
  using iteration_shape [OF q, of env]
proof
  assume "\<exists>evs. final_state (iteration env s) =
                 s\<lparr>task_list := rest, history := history s @ Popleft task # evs\<rparr>
            \<and> prefix (map kind_of evs) [Embeds, Queries, Executes, Embeds]"
  then obtain evs
    where f: "final_state (iteration env s) =
                 s\<lparr>task_list := rest, history := history s @ Popleft task # evs\<rparr>"
      and p: "prefix (map kind_of evs) [Embeds, Queries, Executes, Embeds]"
    by (elim exE conjE)
  have ev: "events_of env s = Popleft task # evs"
    by (rule events_of_eq [OF f]) simp
  have "prefix (map kind_of evs) ([Embeds, Queries, Executes, Embeds]
      @ (Upserts True # Creates # replicate 0 Adds @ [Prioritizes, Sleeps]))"
    by (rule prefix_prefix [OF p])
  then have "prefix (map kind_of (events_of env s))
                ([Pops, Embeds, Queries, Executes, Embeds, Upserts True, Creates]
                 @ replicate 0 Adds @ [Prioritizes, Sleeps])"
    by (simp add: ev)
  then have a: ?order by blast
  have b: ?first by (simp add: ev)
  have c: ?grows by (simp add: ev f)
  have d: ?late by (simp add: f)
  from a b c d show ?thesis by blast
next
  assume "\<exists>result s2 vec ok evs (cs :: candidate list) tl evs3.
            execution_agent env (OBJECTIVE env) (task_name task)
              (record_event (Popleft task) (s\<lparr>task_list := rest\<rparr>)) = Inr (result, s2)
          \<and> embedding_create env (history s2) (replace_newlines result) = Some vec
          \<and> map kind_of evs = [Embeds, Queries, Executes]
          \<and> final_state (iteration env s) =
              s\<lparr>task_list := tl,
                task_id_counter := task_id_counter s + int (length cs),
                index := (if ok then (index s)(''result_'' @ py_str (task_id task) \<mapsto>
                            (vec, [(''task'', task_name task), (''result'', result)]))
                          else index s),
                history := history s @ Popleft task # evs @
                  [Embedding_create (replace_newlines result),
                   Index_upsert (''result_'' @ py_str (task_id task)) vec
                     [(''task'', task_name task), (''result'', result)] ok] @ evs3\<rparr>
          \<and> (\<not> ok \<longrightarrow> evs3 = [] \<and> cs = [] \<and> tl = rest)
          \<and> prefix (map kind_of evs3) (Creates # replicate (length cs) Adds @ [Prioritizes, Sleeps])
          \<and> assigned_ids evs3 = [task_id_counter s + 1 .. task_id_counter s + int (length cs)]"
  then obtain result s2 vec ok evs and cs :: "candidate list" and tl evs3
    where k: "map kind_of evs = [Embeds, Queries, Executes]"
      and f: "final_state (iteration env s) =
              s\<lparr>task_list := tl,
                task_id_counter := task_id_counter s + int (length cs),
                index := (if ok then (index s)(''result_'' @ py_str (task_id task) \<mapsto>
                            (vec, [(''task'', task_name task), (''result'', result)]))
                          else index s),
                history := history s @ Popleft task # evs @
                  [Embedding_create (replace_newlines result),
                   Index_upsert (''result_'' @ py_str (task_id task)) vec
                     [(''task'', task_name task), (''result'', result)] ok] @ evs3\<rparr>"
      and i: "\<not> ok \<longrightarrow> evs3 = [] \<and> cs = [] \<and> tl = rest"
      and p: "prefix (map kind_of evs3) (Creates # replicate (length cs) Adds @ [Prioritizes, Sleeps])"
    by (elim exE conjE)
  have ev: "events_of env s = Popleft task # evs @
                  [Embedding_create (replace_newlines result),
                   Index_upsert (''result_'' @ py_str (task_id task)) vec
                     [(''task'', task_name task), (''result'', result)] ok] @ evs3"
    by (rule events_of_eq [OF f]) simp
  have kinds: "map kind_of (events_of env s) =
      [Pops, Embeds, Queries, Executes, Embeds, Upserts ok] @ map kind_of evs3"
    by (simp add: ev k)
  have a: ?order
  proof (cases ok)
    case True
    have "prefix (map kind_of (events_of env s))
                ([Pops, Embeds, Queries, Executes, Embeds, Upserts True, Creates]
                 @ replicate (length cs) Adds @ [Prioritizes, Sleeps])"
      using p True by (simp add: kinds)
    then show ?thesis by blast
  next
    case False
    with i have "evs3 = []" by simp
    with False show ?thesis by (simp add: kinds)
  qed
  have b: ?first by (simp add: ev)
  have c: ?grows by (simp add: ev f)
  have d: ?late
  proof (cases ok)
    case True
    then show ?thesis by (simp add: kinds)
  next
    case False
    with i have "cs = []" "tl = rest" by simp_all
    then show ?thesis by (simp add: f)
  qed
  from a b c d show ?thesis by blast
qed

theorem iteration_order_witness:
  "map kind_of (events_of poem_env poem_start) =
     [Pops, Embeds, Queries, Executes, Embeds, Upserts True, Creates, Adds, Adds, Adds,
      Prioritizes, Sleeps]
   \<and> hd (events_of poem_env poem_start) =
       Popleft \<lparr>task_name = ''Draft first stanza'', task_id = IntId 1\<rparr>
   \<and> map kind_of (events_of down_env poem_start) = [Pops, Embeds]
   \<and> task_list (final_state (iteration down_env poem_start)) = []
   \<and> task_id_counter (final_state (iteration down_env poem_start)) = task_id_counter poem_start"
  using iteration_order [OF poem_start_queue, of poem_env]
    iteration_order [OF poem_start_queue, of down_env]
  by (simp add: poem_first_events down_events)

subsection \<open>Storing the result\<close>

text \<open>
  Claim C5. An iteration that finds a task in the queue makes at most one upsert. If it
  makes none, the index is unchanged. If it makes one, its id is \<^verbatim>\<open>result_\<close> followed by
  \<^verbatim>\<open>str\<close> of the task's id, its vector is the embedding of the execution result and its
  metadata are the task's name under \<^verbatim>\<open>task\<close> and the execution result under \<^verbatim>\<open>result\<close>;
  when the store accepts it, the index afterwards is the old index updated at that id,
  so a record already stored under the id is replaced and no other record is touched.
\<close>

theorem result_stored_under_task_id:
  assumes q: "task_list s = task # rest"
  shows "(filter is_upsert (events_of env s) = []
          \<and> index (final_state (iteration env s)) = index s)
       \<or> (\<exists>result s2 vec ok.
            execution_agent env (OBJECTIVE env) (task_name task)
              (record_event (Popleft task) (s\<lparr>task_list := rest\<rparr>)) = Inr (result, s2)
          \<and> embedding_create env (history s2) (replace_newlines result) = Some vec
          \<and> filter is_upsert (events_of env s) =
              [Index_upsert (''result_'' @ py_str (task_id task)) vec
                 [(''task'', task_name task), (''result'', result)] ok]
          \<and> index (final_state (iteration env s)) =
              (if ok then (index s)(''result_'' @ py_str (task_id task) \<mapsto>
                             (vec, [(''task'', task_name task), (''result'', result)]))
               else index s))"
    (is "?none \<or> ?one")
  using iteration_shape [OF q, of env]
proof
  assume "\<exists>evs. final_state (iteration env s) =
                 s\<lparr>task_list := rest, history := history s @ Popleft task # evs\<rparr>
            \<and> prefix (map kind_of evs) [Embeds, Queries, Executes, Embeds]"
  then obtain evs
    where f: "final_state (iteration env s) =
                 s\<lparr>task_list := rest, history := history s @ Popleft task # evs\<rparr>"
      and p: "prefix (map kind_of evs) [Embeds, Queries, Executes, Embeds]"
    by (elim exE conjE)
  have ev: "events_of env s = Popleft task # evs"
    by (rule events_of_eq [OF f]) simp
  have "\<forall>ok. Upserts ok \<notin> set (map kind_of evs)"
    using kinds_subset [OF p] by simp
  then have "filter is_upsert evs = []" by (rule no_upserts)
  then have ?none by (simp add: ev f)
  then show ?thesis ..
next
  assume "\<exists>result s2 vec ok evs (cs :: candidate list) tl evs3.
            execution_agent env (OBJECTIVE env) (task_name task)
              (record_event (Popleft task) (s\<lparr>task_list := rest\<rparr>)) = Inr (result, s2)
          \<and> embedding_create env (history s2) (replace_newlines result) = Some vec
          \<and> map kind_of evs = [Embeds, Queries, Executes]
          \<and> final_state (iteration env s) =
              s\<lparr>task_list := tl,
                task_id_counter := task_id_counter s + int (length cs),
                index := (if ok then (index s)(''result_'' @ py_str (task_id task) \<mapsto>
                            (vec, [(''task'', task_name task), (''result'', result)]))
                          else index s),
                history := history s @ Popleft task # evs @
                  [Embedding_create (replace_newlines result),
                   Index_upsert (''result_'' @ py_str (task_id task)) vec
                     [(''task'', task_name task), (''result'', result)] ok] @ evs3\<rparr>
          \<and> (\<not> ok \<longrightarrow> evs3 = [] \<and> cs = [] \<and> tl = rest)
          \<and> prefix (map kind_of evs3) (Creates # replicate (length cs) Adds @ [Prioritizes, Sleeps])
          \<and> assigned_ids evs3 = [task_id_counter s + 1 .. task_id_counter s + int (length cs)]"
  then obtain result s2 vec ok evs and cs :: "candidate list" and tl evs3
    where ex: "execution_agent env (OBJECTIVE env) (task_name task)
              (record_event (Popleft task) (s\<lparr>task_list := rest\<rparr>)) = Inr (result, s2)"
      and em: "embedding_create env (history s2) (replace_newlines result) = Some vec"
      and k: "map kind_of evs = [Embeds, Queries, Executes]"
      and f: "final_state (iteration env s) =
              s\<lparr>task_list := tl,
                task_id_counter := task_id_counter s + int (length cs),
                index := (if ok then (index s)(''result_'' @ py_str (task_id task) \<mapsto>
                            (vec, [(''task'', task_name task), (''result'', result)]))
                          else index s),
                history := history s @ Popleft task # evs @
                  [Embedding_create (replace_newlines result),
                   Index_upsert (''result_'' @ py_str (task_id task)) vec
                     [(''task'', task_name task), (''result'', result)] ok] @ evs3\<rparr>"
      and p: "prefix (map kind_of evs3) (Creates # replicate (length cs) Adds @ [Prioritizes, Sleeps])"
    by (elim exE conjE)
  have ev: "events_of env s = Popleft task # evs @
                  [Embedding_create (replace_newlines result),
                   Index_upsert (''result_'' @ py_str (task_id task)) vec
                     [(''task'', task_name task), (''result'', result)] ok] @ evs3"
    by (rule events_of_eq [OF f]) simp
  have "\<forall>ok. Upserts ok \<notin> set (map kind_of evs)" by (simp add: k)
  then have u1: "filter is_upsert evs = []" by (rule no_upserts)
  have "\<forall>ok. Upserts ok \<notin> set (map kind_of evs3)"
    using kinds_subset [OF p] by simp
  then have u3: "filter is_upsert evs3 = []" by (rule no_upserts)
  have fu: "filter is_upsert (events_of env s) =
              [Index_upsert (''result_'' @ py_str (task_id task)) vec
                 [(''task'', task_name task), (''result'', result)] ok]"
    by (simp add: ev u1 u3)
  have fi: "index (final_state (iteration env s)) =
              (if ok then (index s)(''result_'' @ py_str (task_id task) \<mapsto>
                             (vec, [(''task'', task_name task), (''result'', result)]))
               else index s)"
    by (simp add: f)
  have ?one
    by (rule exI [of _ result], rule exI [of _ s2], rule exI [of _ vec], rule exI [of _ ok])
      (rule conjI [OF ex conjI [OF em conjI [OF fu fi]]])
  then show ?thesis ..
qed

theorem result_stored_under_task_id_witness:
  "filter is_upsert (events_of poem_env poem_start) =
     [Index_upsert ''result_1'' [0]
        [(''task'', ''Draft first stanza''), (''result'', ''Roses are red...'')] True]
   \<and> index (final_state (iteration poem_env poem_start)) ''result_1'' =
       Some ([0], [(''task'', ''Draft first stanza''), (''result'', ''Roses are red...'')])
   \<and> filter is_upsert (events_of down_env poem_start) = []
   \<and> index (final_state (iteration down_env poem_start)) = index poem_start"
  using result_stored_under_task_id [OF poem_start_queue, of poem_env]
    result_stored_under_task_id [OF poem_start_queue, of down_env]
  by (simp add: poem_first_events poem_first_iteration down_events)

subsection \<open>The counter and the ids given to new tasks\<close>

lemma iteration_ids:
  "\<exists>k :: nat.
      task_id_counter (final_state (iteration env s)) = task_id_counter s + int k
    \<and> assigned_ids (history (final_state (iteration env s))) =
        assigned_ids (history s) @ [task_id_counter s + 1 .. task_id_counter s + int k]"
    (is "\<exists>k :: nat. ?P k")
proof (cases "task_list s")
  case Nil
  have "iteration env s = Inr (sleep 1 s)" by (rule iteration_idle [OF Nil])
  then have "?P 0"
    by (simp add: sleep_def record_event_def assigned_ids_append assigned_ids_Cons assigned_ids_Nil)
  then show ?thesis ..
next
  case (Cons task rest)
  from iteration_shape [OF Cons, of env] show ?thesis
  proof
    assume "\<exists>evs. final_state (iteration env s) =
                 s\<lparr>task_list := rest, history := history s @ Popleft task # evs\<rparr>
            \<and> prefix (map kind_of evs) [Embeds, Queries, Executes, Embeds]"
    then obtain evs
      where f: "final_state (iteration env s) =
                 s\<lparr>task_list := rest, history := history s @ Popleft task # evs\<rparr>"
        and p: "prefix (map kind_of evs) [Embeds, Queries, Executes, Embeds]"
      by (elim exE conjE)
    have "Adds \<notin> set (map kind_of evs)"
      using kinds_subset [OF p] by simp
    then have "assigned_ids evs = []" by (rule no_adds)
    then have "?P 0"
      by (simp add: f assigned_ids_append assigned_ids_Cons)
    then show ?thesis ..
  next
    assume "\<exists>result s2 vec ok evs (cs :: candidate list) tl evs3.
            execution_agent env (OBJECTIVE env) (task_name task)
              (record_event (Popleft task) (s\<lparr>task_list := rest\<rparr>)) = Inr (result, s2)
          \<and> embedding_create env (history s2) (replace_newlines result) = Some vec
          \<and> map kind_of evs = [Embeds, Queries, Executes]
          \<and> final_state (iteration env s) =
              s\<lparr>task_list := tl,
                task_id_counter := task_id_counter s + int (length cs),
                index := (if ok then (index s)(''result_'' @ py_str (task_id task) \<mapsto>
                            (vec, [(''task'', task_name task), (''result'', result)]))
                          else index s),
                history := history s @ Popleft task # evs @
                  [Embedding_create (replace_newlines result),
                   Index_upsert (''result_'' @ py_str (task_id task)) vec
                     [(''task'', task_name task), (''result'', result)] ok] @ evs3\<rparr>
          \<and> (\<not> ok \<longrightarrow> evs3 = [] \<and> cs = [] \<and> tl = rest)
          \<and> prefix (map kind_of evs3) (Creates # replicate (length cs) Adds @ [Prioritizes, Sleeps])
          \<and> assigned_ids evs3 = [task_id_counter s + 1 .. task_id_counter s + int (length cs)]"
    then obtain result s2 vec ok evs and cs :: "candidate list" and tl evs3
      where k: "map kind_of evs = [Embeds, Queries, Executes]"
        and f: "final_state (iteration env s) =
              s\<lparr>task_list := tl,
                task_id_counter := task_id_counter s + int (length cs),
                index := (if ok then (index s)(''result_'' @ py_str (task_id task) \<mapsto>
                            (vec, [(''task'', task_name task), (''result'', result)]))
                          else index s),
                history := history s @ Popleft task # evs @
                  [Embedding_create (replace_newlines result),
                   Index_upsert (''result_'' @ py_str (task_id task)) vec
                     [(''task'', task_name task), (''result'', result)] ok] @ evs3\<rparr>"
        and a: "assigned_ids evs3 = [task_id_counter s + 1 .. task_id_counter s + int (length cs)]"
      by (elim exE conjE)
    have "Adds \<notin> set (map kind_of evs)" by (simp add: k)
    then have a1: "assigned_ids evs = []" by (rule no_adds)
    have "?P (length cs)"
      by (simp add: f assigned_ids_append assigned_ids_Cons assigned_ids_Nil a1 a)
    then show ?thesis ..
  qed
qed

lemma iteration_keeps_ids_in_order:
  assumes c: "1 \<le> task_id_counter s"
    and a: "assigned_ids (history s) = [1 .. task_id_counter s]"
  shows "1 \<le> task_id_counter (final_state (iteration env s))
       \<and> assigned_ids (history (final_state (iteration env s))) =
           [1 .. task_id_counter (final_state (iteration env s))]"
proof -
  from iteration_ids [of env s] obtain k :: nat
    where c': "task_id_counter (final_state (iteration env s)) = task_id_counter s + int k"
      and a': "assigned_ids (history (final_state (iteration env s))) =
                 assigned_ids (history s) @ [task_id_counter s + 1 .. task_id_counter s + int k]"
    by (elim exE conjE)
  have "[1 .. task_id_counter s + int k] =
          [1 .. task_id_counter s] @ [task_id_counter s + 1 .. task_id_counter s + int k]"
    by (rule upto_split2) (use c in simp_all)
  then show ?thesis using c by (simp add: c' a' a)
qed

lemma iterations_keep_ids_in_order:
  "1 \<le> task_id_counter s \<Longrightarrow> assigned_ids (history s) = [1 .. task_id_counter s] \<Longrightarrow>
     1 \<le> task_id_counter (final_state (iterations n env s))
   \<and> assigned_ids (history (final_state (iterations n env s))) =
       [1 .. task_id_counter (final_state (iterations n env s))]"
proof (induction n arbitrary: s)
  case 0
  then show ?case by simp
next
  case (Suc n)
  note step = iteration_keeps_ids_in_order [OF Suc.prems, of env]
  show ?case
  proof (cases "iteration env s")
    case (Inl p)
    obtain e s' where p: "p = (e, s')" by (cases p)
    from step show ?thesis by (simp add: Inl p)
  next
    case (Inr s')
    from step have "1 \<le> task_id_counter s'"
      and "assigned_ids (history s') = [1 .. task_id_counter s']"
      by (simp_all add: Inr)
    then have "1 \<le> task_id_counter (final_state (iterations n env s'))
       \<and> assigned_ids (history (final_state (iterations n env s'))) =
           [1 .. task_id_counter (final_state (iterations n env s'))]"
      by (rule Suc.IH)
    then show ?thesis by (simp add: Inr)
  qed
qed

lemma initial_ids:
  "task_id_counter (initial_state env idx) = 1
   \<and> assigned_ids (history (initial_state env idx)) = [1]"
  by (simp add: initial_state_def add_task_def record_event_def assigned_ids_Cons assigned_ids_Nil)

lemma iterations_append:
  "iterations (m + n) env s =
     (case iterations m env s of Inl e \<Rightarrow> Inl e | Inr s' \<Rightarrow> iterations n env s')"
proof (induction m arbitrary: s)
  case 0
  show ?case by simp
next
  case (Suc m)
  show ?case by (cases "iteration env s") (simp_all add: Suc.IH)
qed

lemma counter_never_decreases:
  "task_id_counter s \<le> task_id_counter (final_state (iterations n env s))"
proof (induction n arbitrary: s)
  case 0
  show ?case by simp
next
  case (Suc n)
  from iteration_ids [of env s] obtain k :: nat
    where c': "task_id_counter (final_state (iteration env s)) = task_id_counter s + int k"
    by (elim exE conjE)
  show ?case
  proof (cases "iteration env s")
    case (Inl p)
    obtain e s' where p: "p = (e, s')" by (cases p)
    from c' show ?thesis by (simp add: Inl p)
  next
    case (Inr s')
    from c' have "task_id_counter s \<le> task_id_counter s'" by (simp add: Inr)
    also have "\<dots> \<le> task_id_counter (final_state (iterations n env s'))" by (rule Suc.IH)
    finally show ?thesis by (simp add: Inr)
  qed
qed

text \<open>
  Claim C3. After any number of iterations from the initial state, whatever the model
  and the store answer and whether or not an iteration raised, the integer ids that
  \<^verbatim>\<open>add_task\<close> has been called with are, in the order of the calls, exactly
  \<open>1, 2, \<dots>, task_id_counter\<close>: they are strictly increasing, none is used twice, and
  the counter is never lower after further iterations, each of which reprioritizes the
  queue.
\<close>

theorem assigned_ids_strictly_increasing:
  "assigned_ids (history (final_state (iterations n env (initial_state env idx)))) =
     [1 .. task_id_counter (final_state (iterations n env (initial_state env idx)))]
   \<and> sorted_wrt (<) (assigned_ids (history (final_state (iterations n env (initial_state env idx)))))
   \<and> distinct (assigned_ids (history (final_state (iterations n env (initial_state env idx)))))
   \<and> task_id_counter (final_state (iterations n env (initial_state env idx)))
       \<le> task_id_counter (final_state (iterations (n + m) env (initial_state env idx)))"
proof -
  let ?init = "initial_state env idx"
  let ?fin = "final_state (iterations n env ?init)"
  have c0: "1 \<le> task_id_counter ?init" and a0: "assigned_ids (history ?init) = [1 .. task_id_counter ?init]"
    by (simp_all add: initial_ids)
  have a: "assigned_ids (history ?fin) = [1 .. task_id_counter ?fin]"
    using iterations_keep_ids_in_order [OF c0 a0, of n env] by (rule conjunct2)
  have b: "sorted_wrt (<) (assigned_ids (history ?fin))"
    by (simp only: a sorted_wrt_upto)
  have c: "distinct (assigned_ids (history ?fin))"
    by (simp only: a distinct_upto)
  have d: "task_id_counter ?fin \<le> task_id_counter (final_state (iterations (n + m) env ?init))"
  proof (cases "iterations n env ?init")
    case (Inl p)
    then show ?thesis by (simp add: iterations_append)
  next
    case (Inr s')
    have "task_id_counter s' \<le> task_id_counter (final_state (iterations m env s'))"
      by (rule counter_never_decreases)
    then show ?thesis by (simp add: iterations_append Inr)
  qed
  from a b c d show ?thesis by (intro conjI)
qed

theorem assigned_ids_strictly_increasing_witness:
  "assigned_ids (history (final_state (iterations 1 poem_env poem_start))) = [1, 2, 3, 4]
   \<and> task_id_counter (final_state (iterations 1 poem_env poem_start)) = 4"
  using assigned_ids_strictly_increasing [of 1 poem_env Map.empty 0]
  by (simp add: poem_start_def [symmetric] poem_first_iteration assigned_ids_def)

end
